theory Spec2Isabelle
  imports Complex_Main "HOL-Library.List_Lexorder" "HOL-Library.Char_ord"
    "HOL-Library.Product_Lexorder"
begin

section \<open>Nest aggregation of \<^verbatim>\<open>Zooniverse/process_nests.py\<close>\<close>

text \<open>
  The module reads a table of bird detections (one row per detection), and writes a table
  with one row per nest. A table is a list of rows, in row order. Text columns are
  \<open>string\<close>s, ordered as Python orders them (lexicographically, by character code);
  integer columns are \<open>int\<close>; the float columns (score and box corners) hold the values
  of the doubles as \<open>real\<close>s, and comparisons of them are exact. The sum of a score
  column is the library's and is taken as a parameter; the means of the box corners are
  exact, so the rounding of \<open>xmean\<close> and \<open>ymean\<close> is left out. A missing value (pandas'
  NaN) is \<open>None\<close>. The coordinate reference system of the table is not modelled.
\<close>

subsection \<open>Data model\<close>

record detection =
  Site :: string
  Year :: string
  Date :: string
  target_ind :: int
  score :: real
  label :: string
  bird_id :: int
  match_xmin :: real
  match_ymin :: real
  match_xmax :: real
  match_ymax :: real

text \<open>A row of \<^verbatim>\<open>date_data\<close>: the dates of one (Site, Year) group, as a list.\<close>

record date_row =
  dr_Site :: string
  dr_Year :: string
  dr_Date :: "string list"

text \<open>A row of the output table, in the order of its twelve columns.\<close>

record nest =
  nest_id :: int
  nest_Site :: string
  nest_Year :: string
  xmean :: real
  ymean :: real
  first_obs :: string
  last_obs :: string
  num_obs :: int
  species :: string
  sum_top1 :: real
  num_top1 :: int
  bird_match :: string

text \<open>The file that \<^verbatim>\<open>to_file\<close> writes: its path, attribute columns, geometry type and rows.\<close>

record shapefile =
  path :: string
  columns :: "string list"
  geometry_type :: string
  records :: "nest list"

datatype assertion = Date_data_one_row | Should_not_be_here

datatype error = AssertionError assertion | ValueError | KeyError | FileNotFoundError | OSError

text \<open>
  A call of \<^verbatim>\<open>GeoDataFrame.to_file\<close>: the path, the attribute columns and rows of the
  frame, the type of its geometries if it has any, and the \<^verbatim>\<open>driver\<close> and \<^verbatim>\<open>schema\<close>
  arguments. A schema is its geometry type and its properties, each a name and a type.
\<close>

record write_call =
  call_path :: string
  call_columns :: "string list"
  call_records :: "nest list"
  call_geometry :: "string option"
  call_driver :: "string option"
  call_schema :: "(string \<times> (string \<times> string) list) option"

text \<open>
  What the module takes from outside its source: the library's sum of a column of
  doubles (in column order), whether a path exists, and the outcome of creating a
  directory and of writing a file (\<open>None\<close> when they succeed, else the exception).
\<close>

record environment =
  series_sum :: "real list \<Rightarrow> real"
  path_exists :: "string \<Rightarrow> bool"
  makedirs :: "string \<Rightarrow> error option"
  to_file :: "write_call \<Rightarrow> error option"

subsection \<open>pandas and Python operations used by the module\<close>

text \<open>\<^verbatim>\<open>Series.unique()\<close>: the distinct values, in order of first appearance.\<close>

definition unique :: "'a list \<Rightarrow> 'a list" where
  "unique xs = rev (remdups (rev xs))"

text \<open>
  \<^verbatim>\<open>DataFrame.groupby(keys)\<close> with the default \<^verbatim>\<open>sort=True\<close>: one group per distinct
  key, groups in ascending key order, rows of a group in table order.
\<close>

definition groupby :: "('r \<Rightarrow> 'k::linorder) \<Rightarrow> 'r list \<Rightarrow> ('k \<times> 'r list) list" where
  "groupby key df = map (\<lambda>k. (k, filter (\<lambda>r. key r = k) df)) (sort (remdups (map key df)))"

text \<open>\<^verbatim>\<open>Series.diff()\<close>: NaN first, then each value minus its predecessor; NaN propagates.\<close>

definition nan_sub :: "int option \<Rightarrow> int option \<Rightarrow> int option" where
  "nan_sub a b = (case (a, b) of (Some x, Some y) \<Rightarrow> Some (x - y) | _ \<Rightarrow> None)"

definition diff :: "int option list \<Rightarrow> int option list" where
  "diff xs = (case xs of [] \<Rightarrow> [] | _ # ys \<Rightarrow> None # map2 nan_sub ys xs)"

text \<open>Python's \<^verbatim>\<open>x == 1\<close> and \<^verbatim>\<open>x != 1\<close> on a float that may be NaN.\<close>

definition eq1 :: "int option \<Rightarrow> bool" where
  "eq1 v = (case v of None \<Rightarrow> False | Some x \<Rightarrow> x = 1)"

definition ne1 :: "int option \<Rightarrow> bool" where
  "ne1 v = (case v of None \<Rightarrow> True | Some x \<Rightarrow> x \<noteq> 1)"

text \<open>Python's \<^verbatim>\<open>max\<close> and \<^verbatim>\<open>min\<close> of a sequence: ValueError on the empty one.\<close>

definition py_max :: "'a::linorder list \<Rightarrow> error + 'a" where
  "py_max xs = (case xs of [] \<Rightarrow> Inl ValueError | x # ys \<Rightarrow> Inr (fold max ys x))"

definition py_min :: "'a::linorder list \<Rightarrow> error + 'a" where
  "py_min xs = (case xs of [] \<Rightarrow> Inl ValueError | x # ys \<Rightarrow> Inr (fold min ys x))"

text \<open>\<^verbatim>\<open>mean\<close> of a non-empty column.\<close>

definition mean :: "real list \<Rightarrow> real" where
  "mean xs = sum_list xs / real (length xs)"

text \<open>\<^verbatim>\<open>series[0]\<close> on a freshly indexed column: KeyError when the column is empty.\<close>

definition at0 :: "'a list \<Rightarrow> error + 'a" where
  "at0 xs = (case xs of [] \<Rightarrow> Inl KeyError | x # _ \<Rightarrow> Inr x)"

text \<open>\<^verbatim>\<open>str\<close> of an integer, and \<^verbatim>\<open>sep.join\<close>.\<close>

fun str_nat :: "nat \<Rightarrow> string" where
  "str_nat n = (if n < 10 then [char_of (48 + n)]
                else str_nat (n div 10) @ [char_of (48 + n mod 10)])"

definition str_int :: "int \<Rightarrow> string" where
  "str_int i = (if i < 0 then CHR ''-'' # str_nat (nat (- i)) else str_nat (nat i))"

fun join :: "string \<Rightarrow> string list \<Rightarrow> string" where
  "join sep [] = []"
| "join sep [x] = x"
| "join sep (x # y # ys) = x @ sep @ join sep (y # ys)"

text \<open>\<^verbatim>\<open>os.path.join\<close> of two components on a POSIX system.\<close>

definition os_path_join :: "string \<Rightarrow> string \<Rightarrow> string" where
  "os_path_join a b =
     (if b \<noteq> [] \<and> hd b = CHR ''/'' then b
      else if a = [] \<or> last a = CHR ''/'' then a @ b
      else a @ ''/'' @ b)"

text \<open>
  \<^verbatim>\<open>os.path.exists\<close> and \<^verbatim>\<open>os.makedirs\<close>: the empty path does not exist, and creating
  it raises FileNotFoundError.
\<close>

definition os_path_exists :: "environment \<Rightarrow> string \<Rightarrow> bool" where
  "os_path_exists env p = (p \<noteq> [] \<and> path_exists env p)"

definition os_makedirs :: "environment \<Rightarrow> string \<Rightarrow> error option" where
  "os_makedirs env p = (if p = [] then Some FileNotFoundError else makedirs env p)"

text \<open>
  Modelled from the spec: the file that a successful \<^verbatim>\<open>to_file\<close> leaves (the library is
  not part of the sources). It holds the rows of the frame; its columns and geometry
  type are those of the schema when one is given, else those of the frame.
\<close>

definition written_file :: "write_call \<Rightarrow> shapefile" where
  "written_file c =
     \<lparr>path = call_path c,
      columns = (case call_schema c of None \<Rightarrow> call_columns c | Some (g, props) \<Rightarrow> map fst props),
      geometry_type =
        (case call_schema c of
           None \<Rightarrow> (case call_geometry c of None \<Rightarrow> [] | Some g \<Rightarrow> g)
         | Some (g, props) \<Rightarrow> g),
      records = call_records c\<rparr>"

subsection \<open>\<^verbatim>\<open>count_max_consec_detects\<close>\<close>

text \<open>
  The dictionary \<^verbatim>\<open>{val: key for key, val in sorted_dates.items()}\<close>: each date is
  mapped to its position in the sorted calendar, a later position replacing an earlier one.
\<close>

definition sorted_dates_dict :: "string list \<Rightarrow> (string \<rightharpoonup> nat)" where
  "sorted_dates_dict sorted_dates =
     fold (\<lambda>(key, val) m. m(val \<mapsto> key)) (enumerate 0 sorted_dates) Map.empty"

text \<open>
  One iteration of the loop over \<^verbatim>\<open>range(1, len(sorted_dates_combined_diff))\<close>. The state
  is the pair of \<^verbatim>\<open>all_consec_detects\<close> and \<^verbatim>\<open>consec_detects\<close>; the fourth branch
  only evaluates a comparison and changes nothing; the last one is the failing assertion.
\<close>

definition scan_step ::
  "int option list \<Rightarrow> nat \<Rightarrow> int list \<times> int \<Rightarrow> error + (int list \<times> int)" where
  "scan_step d i st =
     (case st of (all_consec_detects, consec_detects) \<Rightarrow>
        if eq1 (d ! i) \<and> ne1 (d ! (i - 1)) then
          Inr (if i + 1 = length d then all_consec_detects @ [1] else all_consec_detects, 1)
        else if eq1 (d ! i) \<and> eq1 (d ! (i - 1)) then
          Inr (if i + 1 = length d then all_consec_detects @ [consec_detects + 1]
               else all_consec_detects, consec_detects + 1)
        else if ne1 (d ! i) \<and> eq1 (d ! (i - 1)) then
          Inr (all_consec_detects @ [consec_detects], 0)
        else if ne1 (d ! i) \<and> ne1 (d ! (i - 1)) then
          Inr (all_consec_detects, consec_detects)
        else Inl (AssertionError Should_not_be_here))"

fun scan_loop ::
  "int option list \<Rightarrow> nat list \<Rightarrow> int list \<times> int \<Rightarrow> error + (int list \<times> int)" where
  "scan_loop d [] st = Inr st"
| "scan_loop d (i # is) st =
     (case scan_step d i st of Inl e \<Rightarrow> Inl e | Inr st' \<Rightarrow> scan_loop d is st')"

text \<open>
  \<^verbatim>\<open>sorted_nest_dates.map(sorted_dates_dict)\<close>: the target's dates in ascending order,
  each replaced by its rank in the survey calendar (NaN for a date the calendar lacks).
\<close>

definition nest_ranks :: "string list \<Rightarrow> string list \<Rightarrow> int option list" where
  "nest_ranks calendar nest_dates =
     (let sorted_dates = sort calendar;
          sorted_nest_dates = sort nest_dates
      in map (\<lambda>d. map_option int (sorted_dates_dict sorted_dates d)) sorted_nest_dates)"

definition sorted_dates_combined_diff :: "string list \<Rightarrow> string list \<Rightarrow> int option list" where
  "sorted_dates_combined_diff calendar nest_dates = diff (nest_ranks calendar nest_dates)"

text \<open>The scan and the final maximum, on a difference sequence.\<close>

definition max_consec_of_diff :: "int option list \<Rightarrow> error + int" where
  "max_consec_of_diff d =
     (case scan_loop d [1..<length d] ([], 0) of
        Inl e \<Rightarrow> Inl e
      | Inr (all_consec_detects, consec_detects) \<Rightarrow>
          (if all_consec_detects \<noteq> [] then py_max all_consec_detects else Inr 0))"

definition count_max_consec_detects :: "detection list \<Rightarrow> date_row list \<Rightarrow> error + int" where
  "count_max_consec_detects nest_data date_data =
     (if length date_data \<noteq> 1 then Inl (AssertionError Date_data_one_row)
      else max_consec_of_diff
             (sorted_dates_combined_diff (dr_Date (date_data ! 0)) (map Date nest_data)))"

subsection \<open>\<^verbatim>\<open>process_nests\<close>\<close>

text \<open>
  \<^verbatim>\<open>date_data\<close>: one row per (Site, Year) group of the whole table, holding the
  distinct dates of the group.
\<close>

definition make_date_data :: "detection list \<Rightarrow> date_row list" where
  "make_date_data nests_data =
     map (\<lambda>((s, y), g). \<lparr>dr_Site = s, dr_Year = y, dr_Date = unique (map Date g)\<rparr>)
         (groupby (\<lambda>r. (Site r, Year r)) nests_data)"

text \<open>The rows of one target that pass the score filter.\<close>

definition select_nest_data :: "detection list \<Rightarrow> int \<Rightarrow> real \<Rightarrow> detection list" where
  "select_nest_data nests_data t min_score =
     filter (\<lambda>r. target_ind r = t \<and> score r \<ge> min_score) nests_data"

text \<open>
  \<^verbatim>\<open>summed_scores\<close>: per (Site, Year, target_ind, label) group, the key, the library's
  sum of the scores and the number of rows.
\<close>

definition summed_scores ::
  "environment \<Rightarrow> detection list \<Rightarrow> ((string \<times> string \<times> int \<times> string) \<times> real \<times> int) list" where
  "summed_scores env nest_data =
     map (\<lambda>(k, g). (k, series_sum env (map score g), int (length g)))
         (groupby (\<lambda>r. (Site r, Year r, target_ind r, label r)) nest_data)"

text \<open>
  The body of the retention test: the aggregation of one retained target into its row.
  Every subscript \<^verbatim>\<open>[0]\<close> and the call of \<^verbatim>\<open>max\<close> can raise.
\<close>

definition aggregate_nest :: "environment \<Rightarrow> int \<Rightarrow> detection list \<Rightarrow> error + nest" where
  "aggregate_nest env t nest_data =
     (let summed = summed_scores env nest_data in
      case py_max (map (\<lambda>(k, s, c). s) summed) of
        Inl e \<Rightarrow> Inl e
      | Inr m \<Rightarrow>
          (let top_score_data = filter (\<lambda>(k, s, c). s = m) summed;
               nest_info = groupby (\<lambda>r. (Site r, Year r, target_ind r)) nest_data
           in case (at0 nest_info, at0 top_score_data) of
                (Inr ((site0, year0, t0), g), Inr ((ks, ky, kt, top_label), top_sum, top_count)) \<Rightarrow>
                  (case (py_min (map Date g), py_max (map Date g)) of
                     (Inr dmin, Inr dmax) \<Rightarrow>
                       Inr \<lparr>nest_id = t, nest_Site = site0, nest_Year = year0,
                            xmean = (mean (map match_xmin g) + mean (map match_xmax g)) / 2,
                            ymean = (mean (map match_ymin g) + mean (map match_ymax g)) / 2,
                            first_obs = dmin, last_obs = dmax, num_obs = int (length g),
                            species = top_label, sum_top1 = top_sum, num_top1 = top_count,
                            bird_match = join '','' (map (\<lambda>r. str_int (bird_id r)) nest_data)\<rparr>
                   | (Inl e, _) \<Rightarrow> Inl e
                   | (_, Inl e) \<Rightarrow> Inl e)
              | (Inl e, _) \<Rightarrow> Inl e
              | (_, Inl e) \<Rightarrow> Inl e))"

text \<open>
  One iteration of the loop over \<^verbatim>\<open>target_inds\<close>: the list \<^verbatim>\<open>nests\<close> grows by one
  row when the target is retained.
\<close>

definition process_target ::
  "environment \<Rightarrow> detection list \<Rightarrow> date_row list \<Rightarrow> real \<Rightarrow> int \<Rightarrow> int \<Rightarrow> int \<Rightarrow> nest list
     \<Rightarrow> error + nest list" where
  "process_target env nests_data date_data min_score min_detections min_consec_detects target
     nests =
     (let nest_data = select_nest_data nests_data target min_score in
      case count_max_consec_detects nest_data date_data of
        Inl e \<Rightarrow> Inl e
      | Inr num_consec_detects \<Rightarrow>
          if int (length nest_data) \<ge> min_detections \<or> num_consec_detects \<ge> min_consec_detects
          then (case aggregate_nest env target nest_data of
                  Inl e \<Rightarrow> Inl e
                | Inr row \<Rightarrow> Inr (nests @ [row]))
          else Inr nests)"

fun target_loop ::
  "environment \<Rightarrow> detection list \<Rightarrow> date_row list \<Rightarrow> real \<Rightarrow> int \<Rightarrow> int \<Rightarrow> int list
     \<Rightarrow> nest list \<Rightarrow> error + nest list" where
  "target_loop env nests_data date_data min_score min_detections min_consec_detects [] nests =
     Inr nests"
| "target_loop env nests_data date_data min_score min_detections min_consec_detects (t # ts)
     nests =
     (case process_target env nests_data date_data min_score min_detections min_consec_detects
             t nests of
        Inl e \<Rightarrow> Inl e
      | Inr nests' \<Rightarrow>
          target_loop env nests_data date_data min_score min_detections min_consec_detects ts
            nests')"

text \<open>The columns given to \<^verbatim>\<open>pd.DataFrame\<close> when there are nests.\<close>

definition nest_columns :: "string list" where
  "nest_columns =
     [''nest_id'', ''Site'', ''Year'', ''xmean'', ''ymean'', ''first_obs'', ''last_obs'',
      ''num_obs'', ''species'', ''sum_top1'', ''num_top1'', ''bird_match'']"

text \<open>The \<^verbatim>\<open>schema\<close> dictionary of the branch without nests, in insertion order.\<close>

definition schema_geometry :: string where
  "schema_geometry = ''Polygon''"

definition schema_properties :: "(string \<times> string) list" where
  "schema_properties =
     [(''nest_id'', ''int''), (''Site'', ''str''), (''Year'', ''str''), (''xmean'', ''float''),
      (''ymean'', ''float''), (''first_obs'', ''str''), (''last_obs'', ''str''),
      (''num_obs'', ''int''), (''species'', ''str''), (''sum_top1'', ''float''),
      (''num_top1'', ''int''), (''bird_match'', ''str'')]"

text \<open>
  \<^verbatim>\<open>process_nests\<close> on the table read from \<^verbatim>\<open>nest_file\<close>. The result is the file
  written, or the exception raised: by the loop over the targets, by \<^verbatim>\<open>os.makedirs\<close>
  when \<^verbatim>\<open>savedir\<close> does not exist, or by \<^verbatim>\<open>to_file\<close>. With nests, the frame written
  has the twelve columns and point geometries, and the call gives neither driver nor
  schema; without, the frame is empty and the call gives the driver and \<^verbatim>\<open>schema\<close>.
\<close>

definition process_nests ::
  "environment \<Rightarrow> detection list \<Rightarrow> string \<Rightarrow> string \<Rightarrow> string \<Rightarrow> real \<Rightarrow> int \<Rightarrow> int
     \<Rightarrow> error + shapefile" where
  "process_nests env nests_data year site savedir min_score min_detections min_consec_detects =
     (let date_data = make_date_data nests_data;
          target_inds = unique (map target_ind nests_data)
      in case target_loop env nests_data date_data min_score min_detections min_consec_detects
                target_inds [] of
           Inl e \<Rightarrow> Inl e
         | Inr nests \<Rightarrow>
             (case (if \<not> os_path_exists env savedir then os_makedirs env savedir else None) of
                Some e \<Rightarrow> Inl e
              | None \<Rightarrow>
                  (let filename =
                         os_path_join savedir (site @ ''_'' @ year @ ''_processed_nests.shp'');
                       call =
                         (if nests \<noteq> [] then
                            \<lparr>call_path = filename, call_columns = nest_columns,
                             call_records = nests, call_geometry = Some ''Point'',
                             call_driver = None, call_schema = None\<rparr>
                          else
                            \<lparr>call_path = filename, call_columns = [], call_records = [],
                             call_geometry = None, call_driver = Some ''ESRI Shapefile'',
                             call_schema = Some (schema_geometry, schema_properties)\<rparr>)
                   in case to_file env call of
                        Some e \<Rightarrow> Inl e
                      | None \<Rightarrow> Inr (written_file call))))"

section \<open>Reference notions\<close>

text \<open>
  The longest run of \<open>True\<close> in a list of truth values: the greatest length of a block of
  successive \<open>True\<close>s, and 0 when there is none.
\<close>

fun front_run :: "bool list \<Rightarrow> nat" where
  "front_run [] = 0"
| "front_run (b # bs) = (if b then Suc (front_run bs) else 0)"

fun longest_run :: "bool list \<Rightarrow> nat" where
  "longest_run [] = 0"
| "longest_run (b # bs) = max (front_run (b # bs)) (longest_run bs)"

text \<open>The greatest element of a list of recorded run lengths, and 0 for the empty list.\<close>

definition max0 :: "int list \<Rightarrow> int" where
  "max0 xs = fold max xs 0"

text \<open>
  Two dates are adjacent in a survey calendar when they stand at successive positions of
  the calendar in ascending order.
\<close>

definition adjacent_in :: "string list \<Rightarrow> string \<Rightarrow> string \<Rightarrow> bool" where
  "adjacent_in calendar a b = ((a, b) \<in> set (zip (sort calendar) (tl (sort calendar))))"

text \<open>
  Example data: a survey calendar of five dates and one of seven, as the row of
  \<^verbatim>\<open>date_data\<close> that holds it, and a detection of target 1 on a given date.
\<close>

definition survey5 :: date_row where
  "survey5 = \<lparr>dr_Site = ''Joule'', dr_Year = ''2020'',
               dr_Date = [''d3'', ''d1'', ''d2'', ''d5'', ''d4'']\<rparr>"

definition survey7 :: date_row where
  "survey7 = \<lparr>dr_Site = ''Joule'', dr_Year = ''2020'',
               dr_Date = [''d3'', ''d1'', ''d2'', ''d5'', ''d4'', ''d7'', ''d6'']\<rparr>"

definition sighting :: "string \<Rightarrow> detection" where
  "sighting d = \<lparr>Site = ''Joule'', Year = ''2020'', Date = d, target_ind = 1, score = 1 / 2,
                 label = ''GREG'', bird_id = 7, match_xmin = 0, match_ymin = 0,
                 match_xmax = 10, match_ymax = 10\<rparr>"

text \<open>
  Blocks of a rank sequence: the maximal segments in which each rank is its predecessor
  plus one. \<open>block_lengths\<close> lists their lengths from left to right, and \<open>longest_block\<close>
  is the greatest of them (0 for the empty sequence).
\<close>

definition follows_on :: "int option \<Rightarrow> int option \<Rightarrow> bool" where
  "follows_on a b = (case (a, b) of (Some x, Some y) \<Rightarrow> y = x + 1 | _ \<Rightarrow> False)"

fun block_lengths :: "int option list \<Rightarrow> nat list" where
  "block_lengths [] = []"
| "block_lengths [r] = [1]"
| "block_lengths (r # r' # rs) =
     (if follows_on r r'
      then (case block_lengths (r' # rs) of [] \<Rightarrow> [1] | n # ns \<Rightarrow> Suc n # ns)
      else 1 # block_lengths (r' # rs))"

definition longest_block :: "int option list \<Rightarrow> nat" where
  "longest_block rs = foldr max (block_lengths rs) 0"

text \<open>
  The calendar in ascending order, each date marked \<open>True\<close> when the target was detected
  on it. A run of \<open>True\<close>s is a run of the target's dates at successive calendar positions.
\<close>

definition detected_on :: "string list \<Rightarrow> string list \<Rightarrow> bool list" where
  "detected_on calendar dates = map (\<lambda>d. d \<in> set dates) (sort calendar)"

text \<open>The ranks of the marked positions, counted from \<open>k\<close>, and the unit steps of a rank sequence.\<close>

fun positions :: "int \<Rightarrow> bool list \<Rightarrow> int option list" where
  "positions k [] = []"
| "positions k (b # bs) = (if b then Some k # positions (k + 1) bs else positions (k + 1) bs)"

definition unit_steps :: "int option list \<Rightarrow> bool list" where
  "unit_steps rs = map eq1 (tl (diff rs))"

text \<open>
  The summed score and the number of detections of a label among the detections of a
  target.
\<close>

definition label_sum :: "environment \<Rightarrow> detection list \<Rightarrow> string \<Rightarrow> real" where
  "label_sum env nest_data l = series_sum env (map score (filter (\<lambda>r. label r = l) nest_data))"

definition label_count :: "detection list \<Rightarrow> string \<Rightarrow> int" where
  "label_count nest_data l = int (length (filter (\<lambda>r. label r = l) nest_data))"

text \<open>The rows that one iteration of the loop over the targets adds to \<^verbatim>\<open>nests\<close>.\<close>

definition target_rows ::
  "environment \<Rightarrow> detection list \<Rightarrow> date_row list \<Rightarrow> real \<Rightarrow> int \<Rightarrow> int \<Rightarrow> int \<Rightarrow> nest list" where
  "target_rows env nests_data date_data min_score min_detections min_consec_detects t =
     (case process_target env nests_data date_data min_score min_detections min_consec_detects t [] of
        Inl e \<Rightarrow> [] | Inr rows \<Rightarrow> rows)"

text \<open>
  The rank of a date in a survey calendar without repeated dates: the number of calendar
  dates before it.
\<close>

definition calendar_rank :: "string list \<Rightarrow> string \<Rightarrow> int" where
  "calendar_rank calendar d = int (length (filter (\<lambda>c. c < d) calendar))"

text \<open>
  Example data. \<open>exact_env\<close> sums a column exactly (the scores of the examples are
  dyadic, so their double sums are exact), has every directory and writes every file.
  The tables hold one survey of three dates and one target. In \<open>table_pair\<close> the target
  is seen on the first two dates, with boxes (0, 0, 10, 10) and (4, 4, 14, 14), and once
  more on the third date below the score threshold 3/10; in \<open>table_gap\<close> it is seen on the
  first and third date, and on the second below the threshold; in \<open>table_low\<close> its only
  detection is below the threshold. \<open>pair_output\<close> and \<open>empty_output\<close> are the files
  written for the first two.
\<close>

definition exact_env :: environment where
  "exact_env = \<lparr>series_sum = sum_list, path_exists = (\<lambda>p. True), makedirs = (\<lambda>p. None),
                to_file = (\<lambda>c. None)\<rparr>"

definition observed ::
  "string \<Rightarrow> int \<Rightarrow> real \<Rightarrow> string \<Rightarrow> int \<Rightarrow> real \<Rightarrow> real \<Rightarrow> real \<Rightarrow> real \<Rightarrow> detection" where
  "observed d t sc l b x0 y0 x1 y1 =
     \<lparr>Site = ''Joule'', Year = ''2020'', Date = d, target_ind = t, score = sc, label = l,
      bird_id = b, match_xmin = x0, match_ymin = y0, match_xmax = x1, match_ymax = y1\<rparr>"

definition table_pair :: "detection list" where
  "table_pair = [observed ''d3'' 1 (9 / 32) ''GBHE'' 13 100 100 200 200,
                 observed ''d2'' 1 (1 / 2) ''GBHE'' 12 4 4 14 14,
                 observed ''d1'' 1 (3 / 4) ''GREG'' 11 0 0 10 10]"

definition table_gap :: "detection list" where
  "table_gap = [observed ''d1'' 1 (3 / 4) ''GREG'' 11 0 0 10 10,
                observed ''d2'' 1 (9 / 32) ''GREG'' 12 2 2 12 12,
                observed ''d3'' 1 (1 / 2) ''GREG'' 13 4 4 14 14]"

definition table_low :: "detection list" where
  "table_low = [observed ''d1'' 1 (1 / 8) ''GREG'' 11 0 0 10 10]"

definition pair_nest :: nest where
  "pair_nest = \<lparr>nest_id = 1, nest_Site = ''Joule'', nest_Year = ''2020'', xmean = 7, ymean = 7,
                first_obs = ''d1'', last_obs = ''d2'', num_obs = 2, species = ''GREG'',
                sum_top1 = 3 / 4, num_top1 = 1, bird_match = ''12,11''\<rparr>"

definition pair_output :: shapefile where
  "pair_output = \<lparr>path = ''out/Joule_2020_processed_nests.shp'', columns = nest_columns,
                  geometry_type = ''Point'', records = [pair_nest]\<rparr>"

definition empty_output :: shapefile where
  "empty_output = \<lparr>path = ''out/Joule_2020_processed_nests.shp'', columns = nest_columns,
                   geometry_type = ''Polygon'', records = []\<rparr>"

section \<open>The run-length scan\<close>

lemma front_run_le_longest: "front_run bs \<le> longest_run bs"
  by (cases bs) auto

lemma scan_step_total:
  "\<exists>st'. scan_step d i st = Inr st'"
  by (cases st) (auto simp: scan_step_def eq1_def ne1_def split: option.splits)

lemma max0_append: "max0 (xs @ [x]) = max x (max0 xs)"
  by (simp add: max0_def max.commute)

lemma max0_nonneg: "0 \<le> max0 xs"
proof (induction xs rule: rev_induct)
  case Nil show ?case by (simp add: max0_def)
next
  case (snoc x xs) then show ?case by (simp add: max0_append)
qed

lemma ne1_eq1: "ne1 v = (\<not> eq1 v)"
  by (auto simp: eq1_def ne1_def split: option.splits)

lemma scan_loop_inv:
  assumes "n = length d" "1 \<le> i" "i < n" "\<not> eq1 (d ! (i - 1)) \<longrightarrow> c = 0" "0 \<le> c"
    "\<forall>x\<in>set all. 0 \<le> x"
  shows "\<exists>all' c'. scan_loop d [i..<n] (all, c) = Inr (all', c') \<and> (\<forall>x\<in>set all'. 0 \<le> x) \<and>
           max0 all' = max (max0 all)
             (max (c + int (front_run (map eq1 (drop i d)))) (int (longest_run (map eq1 (drop i d)))))"
  using assms
proof (induction "n - i" arbitrary: i all c)
  case 0
  then show ?case by simp
next
  case (Suc k)
  have up: "[i..<n] = i # [Suc i..<n]" using Suc.prems by (simp add: upt_conv_Cons)
  have dr: "drop i d = d ! i # drop (Suc i) d" using Suc.prems by (simp add: Cons_nth_drop_Suc)
  obtain all1 c1 where step: "scan_step d i (all, c) = Inr (all1, c1)"
    using scan_step_total by (metis surj_pair)
  have m0: "0 \<le> max0 all" by (rule max0_nonneg)
  show ?case
  proof (cases "Suc i = n")
    case True
    have loop: "scan_loop d [i..<n] (all, c) = Inr (all1, c1)"
      using up step True by simp
    have dn: "drop (Suc i) d = []" using True Suc.prems by simp
    have val: "max0 all1 = max (max0 all)
             (max (c + int (front_run (map eq1 (drop i d)))) (int (longest_run (map eq1 (drop i d)))))"
      using step True Suc.prems m0
      by (auto simp: scan_step_def ne1_eq1 dr dn max0_append split: if_splits)
    have pos: "\<forall>x\<in>set all1. 0 \<le> x"
      using step Suc.prems by (auto simp: scan_step_def ne1_eq1 split: if_splits)
    show ?thesis using loop val pos by blast
  next
    case False
    then have lt: "Suc i < n" using Suc.prems by simp
    have k: "k = n - Suc i" using Suc.hyps(2) by simp
    have c1: "\<not> eq1 (d ! (Suc i - 1)) \<longrightarrow> c1 = 0" "0 \<le> c1" "\<forall>x\<in>set all1. 0 \<le> x"
      using step Suc.prems False by (auto simp: scan_step_def ne1_eq1 split: if_splits)
    from Suc.hyps(1)[OF k Suc.prems(1) _ lt c1]
    obtain all' c' where ih: "scan_loop d [Suc i..<n] (all1, c1) = Inr (all', c')"
      "\<forall>x\<in>set all'. 0 \<le> x"
      "max0 all' = max (max0 all1)
             (max (c1 + int (front_run (map eq1 (drop (Suc i) d))))
                  (int (longest_run (map eq1 (drop (Suc i) d)))))"
      by auto
    have loop: "scan_loop d [i..<n] (all, c) = Inr (all', c')"
      using up step ih(1) by simp
    have fl: "front_run (map eq1 (drop (Suc i) d)) \<le> longest_run (map eq1 (drop (Suc i) d))"
      by (rule front_run_le_longest)
    have val: "max0 all' = max (max0 all)
             (max (c + int (front_run (map eq1 (drop i d)))) (int (longest_run (map eq1 (drop i d)))))"
      using step False Suc.prems m0 ih(3) fl
      by (auto simp: scan_step_def ne1_eq1 dr max0_append split: if_splits)
    show ?thesis using loop val ih(2) by blast
  qed
qed

lemma py_max_max0: "xs \<noteq> [] \<Longrightarrow> \<forall>x\<in>set xs. 0 \<le> x \<Longrightarrow> py_max xs = Inr (max0 xs)"
  by (cases xs) (auto simp: py_max_def max0_def max_def)

lemma max_consec_of_diff_run:
  "max_consec_of_diff d = Inr (int (longest_run (map eq1 (tl d))))"
proof (cases "length d \<le> 1")
  case True
  then have "scan_loop d [1..<length d] ([], 0) = Inr ([], 0)" by simp
  moreover have "tl d = []" using True by (cases d) auto
  ultimately show ?thesis unfolding max_consec_of_diff_def by simp
next
  case False
  then have lt: "1 < length d" by simp
  from scan_loop_inv[OF refl _ lt, of 0 "[]"]
  obtain all' c' where r: "scan_loop d [1..<length d] ([], 0) = Inr (all', c')"
    "\<forall>x\<in>set all'. 0 \<le> x"
    "max0 all' = max (max0 [])
       (max (0 + int (front_run (map eq1 (drop 1 d)))) (int (longest_run (map eq1 (drop 1 d)))))"
    by auto
  have fl: "front_run (map eq1 (tl d)) \<le> longest_run (map eq1 (tl d))"
    by (rule front_run_le_longest)
  have v: "max0 all' = int (longest_run (map eq1 (tl d)))"
    using r(3) fl by (simp add: drop_Suc max0_def)
  show ?thesis
  proof (cases "all' = []")
    case True
    then show ?thesis using r(1) v by (simp add: max_consec_of_diff_def max0_def)
  next
    case False
    then show ?thesis using r(1,2) v py_max_max0[OF False r(2)]
      by (simp add: max_consec_of_diff_def)
  qed
qed


text \<open>
  C8. The last branch of the scan, the assertion "I shouldn't be here", is never taken:
  whatever the difference sequence, the index and the loop state, one of the four
  explicit cases applies (a NaN is unequal to 1), so neither one iteration nor the whole
  function fails with that assertion.
\<close>

theorem unreachable_branch_never_taken:
  "scan_step d i st \<noteq> Inl (AssertionError Should_not_be_here)
   \<and> max_consec_of_diff d' \<noteq> Inl (AssertionError Should_not_be_here)
   \<and> count_max_consec_detects nest_data date_data \<noteq> Inl (AssertionError Should_not_be_here)"
proof -
  have a: "scan_step d i st \<noteq> Inl (AssertionError Should_not_be_here)"
    using scan_step_total[of d i st] by auto
  have b: "\<And>x. max_consec_of_diff x \<noteq> Inl (AssertionError Should_not_be_here)"
    by (simp add: max_consec_of_diff_run)
  have c: "count_max_consec_detects nest_data date_data \<noteq> Inl (AssertionError Should_not_be_here)"
    using b by (simp add: count_max_consec_detects_def)
  show ?thesis using a b c by blast
qed

section \<open>Ranks and the result of \<^verbatim>\<open>count_max_consec_detects\<close>\<close>

lemma fold_enumerate_Some:
  "fold (\<lambda>(key, val) m. m(val \<mapsto> key)) (enumerate k xs) m d = Some n \<Longrightarrow>
     m d = Some n \<or> (k \<le> n \<and> n < k + length xs \<and> xs ! (n - k) = d)"
proof (induction xs arbitrary: k m)
  case Nil
  then show ?case by simp
next
  case (Cons x xs)
  from Cons.prems have
    "fold (\<lambda>(key, val) m. m(val \<mapsto> key)) (enumerate (Suc k) xs) (m(x \<mapsto> k)) d = Some n"
    by (simp only: enumerate_simps fold_simps comp_apply prod.case)
  from Cons.IH[OF this] show ?case
  proof
    assume "(m(x \<mapsto> k)) d = Some n"
    then show ?thesis by (auto split: if_splits)
  next
    assume a: "Suc k \<le> n \<and> n < Suc k + length xs \<and> xs ! (n - Suc k) = d"
    then have "(x # xs) ! (n - k) = d" by (simp add: nth_Cons split: nat.splits) (metis Suc_diff_le diff_Suc_Suc Suc_inject)
    with a show ?thesis by auto
  qed
qed

lemma sorted_dates_dict_Some:
  "sorted_dates_dict xs d = Some n \<Longrightarrow> n < length xs \<and> xs ! n = d"
  using fold_enumerate_Some[of 0 xs Map.empty d n] by (simp add: sorted_dates_dict_def)

lemma unit_step_adjacent:
  assumes "eq1 (nan_sub (map_option int (sorted_dates_dict S b)) (map_option int (sorted_dates_dict S a)))"
  shows "a \<noteq> b \<and> (a, b) \<in> set (zip S (tl S))"
proof -
  from assms obtain n m where nm0: "sorted_dates_dict S a = Some n" "sorted_dates_dict S b = Some m"
    "int m - int n = 1"
    by (auto simp: eq1_def nan_sub_def split: option.splits)
  then have "m = Suc n" by linarith
  with nm0 have nm: "sorted_dates_dict S a = Some n" "sorted_dates_dict S b = Some m" "m = Suc n"
    by simp_all
  from sorted_dates_dict_Some[OF nm(1)] sorted_dates_dict_Some[OF nm(2)] nm(3)
  have p: "n < length S" "S ! n = a" "Suc n < length S" "S ! Suc n = b" by auto
  have "tl S ! n = b" using p by (simp add: nth_tl)
  moreover have "n < length (tl S)" using p by simp
  ultimately have "(a, b) \<in> set (zip S (tl S))"
    using p(1,2) by (auto simp: in_set_zip)
  moreover have "a \<noteq> b" using nm by auto
  ultimately show ?thesis by simp
qed

lemma longest_run_all_False: "\<forall>b\<in>set bs. \<not> b \<Longrightarrow> longest_run bs = 0"
  by (induction bs) auto

lemma set_tl_subset: "set (tl xs) \<subseteq> set xs"
  by (cases xs) auto

lemma tl_diff: "tl (diff rs) = map2 nan_sub (tl rs) rs"
  by (cases rs) (auto simp: diff_def)

lemma count_max_one_row:
  "length date_data = 1 \<Longrightarrow>
   count_max_consec_detects nest_data date_data =
     Inr (int (longest_run (map eq1 (tl (diff (nest_ranks (dr_Date (date_data ! 0)) (map Date nest_data)))))))"
  by (simp add: count_max_consec_detects_def sorted_dates_combined_diff_def max_consec_of_diff_run)

text \<open>
  C4. Called with a survey-date table of more than one row, \<^verbatim>\<open>count_max_consec_detects\<close>
  fails with the assertion on \<^verbatim>\<open>date_data\<close>; called with a table of exactly one row it
  returns a number, whatever the detections.
\<close>

theorem assertion_on_date_rows:
  "(1 < length date_data \<longrightarrow>
      count_max_consec_detects nest_data date_data = Inl (AssertionError Date_data_one_row))
   \<and> (length date_data = 1 \<longrightarrow>
      (\<exists>n. count_max_consec_detects nest_data date_data = Inr n))"
  using count_max_one_row[of date_data nest_data]
  by (auto simp: count_max_consec_detects_def)

theorem assertion_on_date_rows_witness:
  "1 < length [survey5, survey7]
   \<and> count_max_consec_detects [sighting ''d1''] [survey5, survey7] = Inl (AssertionError Date_data_one_row)
   \<and> length [survey5] = 1
   \<and> (\<exists>n. count_max_consec_detects [sighting ''d1''] [survey5] = Inr n)"
  using assertion_on_date_rows[of "[survey5, survey7]" "[sighting ''d1'']"]
    assertion_on_date_rows[of "[survey5]" "[sighting ''d1'']"]
  by simp

text \<open>
  C2. With a survey-date table of one row, \<^verbatim>\<open>count_max_consec_detects\<close> returns 0 when
  no two different dates of the target are adjacent in the survey calendar. The
  instances are a target seen on the first, third and fifth of five survey dates, a
  target with a single date, and a target with no detection left.
\<close>

theorem no_adjacent_dates_zero:
  assumes "length date_data = 1"
    and "\<forall>a\<in>set (map Date nest_data). \<forall>b\<in>set (map Date nest_data).
           a \<noteq> b \<longrightarrow> \<not> adjacent_in (dr_Date (date_data ! 0)) a b"
  shows "count_max_consec_detects nest_data date_data = Inr 0"
proof -
  let ?cal = "dr_Date (date_data ! 0)"
  let ?S = "sort ?cal"
  let ?s = "sort (map Date nest_data)"
  let ?rk = "\<lambda>d. map_option int (sorted_dates_dict ?S d)"
  have rs: "nest_ranks ?cal (map Date nest_data) = map ?rk ?s"
    by (simp add: nest_ranks_def)
  have "\<forall>b\<in>set (map eq1 (tl (diff (map ?rk ?s)))). \<not> b"
  proof
    fix b assume "b \<in> set (map eq1 (tl (diff (map ?rk ?s))))"
    then obtain y x where yx: "(y, x) \<in> set (zip (tl (map ?rk ?s)) (map ?rk ?s))"
      "b = eq1 (nan_sub y x)"
      by (auto simp: tl_diff)
    from yx(1) have "y \<in> set (tl (map ?rk ?s))" "x \<in> set (map ?rk ?s)"
      by (auto dest: set_zip_leftD set_zip_rightD)
    then have "y \<in> ?rk ` set ?s" "x \<in> ?rk ` set ?s"
      using set_tl_subset[of "map ?rk ?s"] by auto
    then obtain d e where de: "d \<in> set ?s" "y = ?rk d" "e \<in> set ?s" "x = ?rk e"
      by blast
    show "\<not> b"
    proof
      assume b
      then have "e \<noteq> d \<and> (e, d) \<in> set (zip ?S (tl ?S))"
        using yx(2) de unit_step_adjacent[of ?S d e] by simp
      moreover have "e \<in> set (map Date nest_data)" "d \<in> set (map Date nest_data)"
        using de by simp_all
      ultimately show False using assms(2) unfolding adjacent_in_def by blast
    qed
  qed
  then have "longest_run (map eq1 (tl (diff (map ?rk ?s)))) = 0"
    by (rule longest_run_all_False)
  then show ?thesis using count_max_one_row[OF assms(1), of nest_data] rs by simp
qed

theorem no_adjacent_dates_zero_witness:
  "count_max_consec_detects [sighting ''d5'', sighting ''d1'', sighting ''d3''] [survey5] = Inr 0
   \<and> count_max_consec_detects [sighting ''d2''] [survey5] = Inr 0
   \<and> count_max_consec_detects [] [survey5] = Inr 0"
proof -
  have l: "length [survey5] = 1" by simp
  have a: "\<forall>a\<in>set (map Date [sighting ''d5'', sighting ''d1'', sighting ''d3'']).
           \<forall>b\<in>set (map Date [sighting ''d5'', sighting ''d1'', sighting ''d3'']).
             a \<noteq> b \<longrightarrow> \<not> adjacent_in (dr_Date ([survey5] ! 0)) a b"
    by (simp add: adjacent_in_def survey5_def sighting_def)
  have b: "\<forall>a\<in>set (map Date [sighting ''d2'']). \<forall>b\<in>set (map Date [sighting ''d2'']).
             a \<noteq> b \<longrightarrow> \<not> adjacent_in (dr_Date ([survey5] ! 0)) a b"
    by simp
  have c: "\<forall>a\<in>set (map Date []). \<forall>b\<in>set (map Date []).
             a \<noteq> b \<longrightarrow> \<not> adjacent_in (dr_Date ([survey5] ! 0)) a b"
    by simp
  show ?thesis
    using no_adjacent_dates_zero[OF l a] no_adjacent_dates_zero[OF l b]
      no_adjacent_dates_zero[OF l c]
    by simp
qed

section \<open>Blocks of consecutive ranks\<close>

lemma unit_steps_simps [simp]:
  "unit_steps [] = []" "unit_steps [r] = []"
  "unit_steps (r # r' # rs) = follows_on r r' # unit_steps (r' # rs)"
  by (auto simp: unit_steps_def diff_def follows_on_def eq1_def nan_sub_def split: option.splits)

lemma block_lengths_run:
  "rs \<noteq> [] \<Longrightarrow> \<exists>n ns. block_lengths rs = n # ns \<and> n = Suc (front_run (unit_steps rs))
      \<and> foldr max (n # ns) 0 = Suc (longest_run (unit_steps rs))"
proof (induction rs rule: block_lengths.induct)
  case 1
  then show ?case by simp
next
  case (2 r)
  show ?case by simp
next
  case (3 r r' rs)
  then obtain n ns where ih: "block_lengths (r' # rs) = n # ns"
    "n = Suc (front_run (unit_steps (r' # rs)))"
    "foldr max (n # ns) 0 = Suc (longest_run (unit_steps (r' # rs)))"
    by (cases "follows_on r r'") auto
  have fl: "front_run (unit_steps (r' # rs)) \<le> longest_run (unit_steps (r' # rs))"
    by (rule front_run_le_longest)
  define f where "f = front_run (unit_steps (r' # rs))"
  define l where "l = longest_run (unit_steps (r' # rs))"
  define M where "M = foldr max ns 0"
  have n: "n = Suc f" and m: "max n M = Suc l" and fl': "f \<le> l"
    using ih(2,3) fl by (simp_all add: f_def l_def M_def)
  show ?case
  proof (cases "follows_on r r'")
    case True
    have "max (Suc n) M = Suc (max (Suc f) l)" using n m fl' by linarith
    then show ?thesis using True ih(1) n by (simp add: f_def l_def M_def)
  next
    case False
    have "max 1 (max n M) = Suc (max 0 l)" using n m fl' by linarith
    then show ?thesis using False ih(1) n by (simp add: f_def l_def M_def)
  qed
qed

lemma longest_block_run:
  "rs \<noteq> [] \<Longrightarrow> longest_block rs = Suc (longest_run (unit_steps rs))"
  using block_lengths_run[of rs] by (auto simp: longest_block_def)

lemma longest_block_Nil: "longest_block [] = 0"
  by (simp add: longest_block_def)

lemma nest_ranks_block_minus_one:
  assumes "length date_data = 1"
    and "longest_block (nest_ranks (dr_Date (date_data ! 0)) (map Date nest_data)) = k"
    and "2 \<le> k"
  shows "count_max_consec_detects nest_data date_data = Inr (int k - 1)"
proof -
  let ?rs = "nest_ranks (dr_Date (date_data ! 0)) (map Date nest_data)"
  have "?rs \<noteq> []" using assms(2,3) longest_block_Nil by auto
  then have "k = Suc (longest_run (unit_steps ?rs))"
    using longest_block_run assms(2) by simp
  then show ?thesis
    using count_max_one_row[OF assms(1), of nest_data] by (simp add: unit_steps_def)
qed

section \<open>Runs of detection dates in the calendar\<close>

lemma fold_enumerate_notin:
  assumes f: "\<And>k v m. f (k, v) m = m(v \<mapsto> k)"
  shows "d \<notin> set xs \<Longrightarrow> fold f (enumerate k xs) m d = m d"
proof (induction xs arbitrary: k m)
  case Nil
  then show ?case by simp
next
  case (Cons x xs)
  then show ?case by (simp add: f)
qed

lemma fold_enumerate_nth:
  assumes f: "\<And>k v m. f (k, v) m = m(v \<mapsto> k)"
  shows "distinct xs \<Longrightarrow> i < length xs \<Longrightarrow> fold f (enumerate k xs) m (xs ! i) = Some (k + i)"
proof (induction xs arbitrary: k m i)
  case Nil
  then show ?case by simp
next
  case (Cons x xs)
  have step: "\<And>d. fold f (enumerate k (x # xs)) m d
                 = fold f (enumerate (Suc k) xs) (m(x \<mapsto> k)) d"
    by (simp add: f)
  show ?case
  proof (cases i)
    case 0
    have "x \<notin> set xs" using Cons.prems by simp
    then have "fold f (enumerate (Suc k) xs) (m(x \<mapsto> k)) x = (m(x \<mapsto> k)) x"
      by (rule fold_enumerate_notin[of f, OF f])
    then have "fold f (enumerate k (x # xs)) m x = Some k"
      unfolding step by simp
    then show ?thesis using 0 by simp
  next
    case (Suc j)
    then have j: "j < length xs" "distinct xs" using Cons.prems by simp_all
    have nth: "(x # xs) ! i = xs ! j" using Suc by simp
    have "fold f (enumerate k (x # xs)) m ((x # xs) ! i) = Some (Suc k + j)"
      unfolding nth step by (rule Cons.IH[OF j(2,1)])
    then show ?thesis using Suc by simp
  qed
qed

lemma sorted_dates_dict_nth:
  "distinct xs \<Longrightarrow> i < length xs \<Longrightarrow> sorted_dates_dict xs (xs ! i) = Some i"
  using fold_enumerate_nth[of "\<lambda>(key, val) m. m(val \<mapsto> key)" xs i 0 Map.empty]
  unfolding sorted_dates_dict_def by simp

lemma sort_as_filter:
  assumes "distinct cal" "distinct ds" "set ds \<subseteq> set cal"
  shows "sort ds = filter (\<lambda>d. d \<in> set ds) (sort cal)"
proof (rule sorted_distinct_set_unique)
  show "sorted (sort ds)" by simp
  show "distinct (sort ds)" using assms(2) by simp
  show "sorted (filter (\<lambda>d. d \<in> set ds) (sort cal))" by (simp add: sorted_wrt_filter)
  show "distinct (filter (\<lambda>d. d \<in> set ds) (sort cal))" using assms(1) by simp
  show "set (sort ds) = set (filter (\<lambda>d. d \<in> set ds) (sort cal))" using assms(3) by auto
qed

lemma map_filter_positions:
  "(\<And>i. i < length xs \<Longrightarrow> f (xs ! i) = Some (k + int i)) \<Longrightarrow>
   map f (filter P xs) = positions k (map P xs)"
proof (induction xs arbitrary: k)
  case Nil
  then show ?case by simp
next
  case (Cons x xs)
  have h: "f x = Some k" using Cons.prems[of 0] by simp
  have "\<And>i. i < length xs \<Longrightarrow> f (xs ! i) = Some (k + 1 + int i)"
    using Cons.prems[of "Suc _"] by simp
  from Cons.IH[OF this] show ?case using h by simp
qed

lemma positions_ge: "r \<in> set (positions k bs) \<Longrightarrow> \<exists>x. r = Some x \<and> k \<le> x"
proof (induction bs arbitrary: k)
  case Nil
  then show ?case by simp
next
  case (Cons b bs)
  then show ?case by (fastforce split: if_splits)
qed

lemma positions_Nil_runs: "positions k bs = [] \<Longrightarrow> front_run bs = 0 \<and> longest_run bs = 0"
  by (induction bs arbitrary: k) (auto split: if_splits)

lemma front_run_positions:
  "front_run (unit_steps (Some k # positions (k + 1) bs)) = front_run bs"
proof (induction bs arbitrary: k)
  case Nil
  show ?case by simp
next
  case (Cons b bs)
  show ?case
  proof (cases b)
    case True
    then show ?thesis using Cons.IH[of "k + 1"] by (simp add: follows_on_def)
  next
    case False
    show ?thesis
    proof (cases "positions (k + 1 + 1) bs")
      case Nil
      then show ?thesis using False by simp
    next
      case (Cons r rs)
      then have "r \<in> set (positions (k + 1 + 1) bs)" by simp
      from positions_ge[OF this] obtain x where "r = Some x" "k + 1 + 1 \<le> x" by blast
      then show ?thesis using False Cons by (simp add: follows_on_def)
    qed
  qed
qed

lemma longest_run_positions:
  "longest_run (unit_steps (positions k bs)) = longest_run bs - 1"
proof (induction bs arbitrary: k)
  case Nil
  show ?case by simp
next
  case (Cons b bs)
  show ?case
  proof (cases b)
    case False
    then show ?thesis using Cons.IH[of "k + 1"] by simp
  next
    case True
    show ?thesis
    proof (cases "positions (k + 1) bs")
      case Nil
      then show ?thesis using True positions_Nil_runs[OF Nil] by simp
    next
      case (Cons r rs)
      have f: "front_run (unit_steps (Some k # r # rs)) = front_run bs"
        using front_run_positions[of k bs] Cons by simp
      have l: "longest_run (unit_steps (r # rs)) = longest_run bs - 1"
        using Cons.IH[of "k + 1"] Cons by simp
      have "longest_run (unit_steps (Some k # r # rs))
            = max (front_run (unit_steps (Some k # r # rs))) (longest_run (unit_steps (r # rs)))"
        by simp
      then have "longest_run (unit_steps (Some k # r # rs)) = max (front_run bs) (longest_run bs - 1)"
        using f l by simp
      then show ?thesis using True Cons by simp
    qed
  qed
qed

lemma nest_ranks_positions:
  assumes "distinct cal" "distinct ds" "set ds \<subseteq> set cal"
  shows "nest_ranks cal ds = positions 0 (detected_on cal ds)"
proof -
  have d: "distinct (sort cal)" using assms(1) by simp
  have "\<And>i. i < length (sort cal) \<Longrightarrow>
          map_option int (sorted_dates_dict (sort cal) (sort cal ! i)) = Some (0 + int i)"
    using sorted_dates_dict_nth[OF d] by simp
  from map_filter_positions[of "sort cal" "\<lambda>d. map_option int (sorted_dates_dict (sort cal) d)" 0
      "\<lambda>d. d \<in> set ds", OF this]
  show ?thesis using sort_as_filter[OF assms] by (simp add: nest_ranks_def detected_on_def)
qed

text \<open>
  C1, the claim as stated. It gives 2 for a target seen on the second and third of five
  survey dates, and 3 for a target at ranks 0, 1, 2, 5, 6. The function returns neither.
\<close>

theorem run_counts_dates_counterexample:
  "count_max_consec_detects [sighting ''d2'', sighting ''d3''] [survey5] \<noteq> Inr 2
   \<and> count_max_consec_detects
        [sighting ''d1'', sighting ''d2'', sighting ''d3'', sighting ''d6'', sighting ''d7'']
        [survey7] \<noteq> Inr 3"
  by code_simp

text \<open>
  C1, amended. For a survey calendar without repeated dates and a target with at most
  one detection per date, all on calendar dates, \<^verbatim>\<open>count_max_consec_detects\<close> returns the
  number of dates in the longest run of the target's dates at successive calendar
  positions, minus one (and 0 for a target without dates): 1 for the second and third of
  five dates, 2 for ranks 0, 1, 2, 5, 6.
\<close>

theorem longest_run_of_dates_minus_one:
  assumes "length date_data = 1"
    and "distinct (dr_Date (date_data ! 0))"
    and "distinct (map Date nest_data)"
    and "set (map Date nest_data) \<subseteq> set (dr_Date (date_data ! 0))"
  shows "count_max_consec_detects nest_data date_data =
           Inr (int (longest_run (detected_on (dr_Date (date_data ! 0)) (map Date nest_data)) - 1))"
  using count_max_one_row[OF assms(1), of nest_data] nest_ranks_positions[OF assms(2,3,4)]
    longest_run_positions[of 0 "detected_on (dr_Date (date_data ! 0)) (map Date nest_data)"]
  by (simp add: unit_steps_def)

theorem longest_run_of_dates_minus_one_witness:
  "longest_run (detected_on (dr_Date ([survey5] ! 0))
      (map Date [sighting ''d2'', sighting ''d3''])) = 2
   \<and> count_max_consec_detects [sighting ''d2'', sighting ''d3''] [survey5] = Inr 1
   \<and> longest_run (detected_on (dr_Date ([survey7] ! 0))
      (map Date [sighting ''d1'', sighting ''d2'', sighting ''d3'', sighting ''d6'', sighting ''d7''])) = 3
   \<and> count_max_consec_detects
        [sighting ''d1'', sighting ''d2'', sighting ''d3'', sighting ''d6'', sighting ''d7'']
        [survey7] = Inr 2"
proof -
  let ?a = "[sighting ''d2'', sighting ''d3'']"
  let ?b = "[sighting ''d1'', sighting ''d2'', sighting ''d3'', sighting ''d6'', sighting ''d7'']"
  have l5: "length [survey5] = 1" and l7: "length [survey7] = 1" by simp_all
  have c5: "distinct (dr_Date ([survey5] ! 0))" by (simp add: survey5_def)
  have c7: "distinct (dr_Date ([survey7] ! 0))" by (simp add: survey7_def)
  have da: "distinct (map Date ?a)" by (simp add: sighting_def)
  have db: "distinct (map Date ?b)" by (simp add: sighting_def)
  have sa: "set (map Date ?a) \<subseteq> set (dr_Date ([survey5] ! 0))"
    by (simp add: sighting_def survey5_def)
  have sb: "set (map Date ?b) \<subseteq> set (dr_Date ([survey7] ! 0))"
    by (simp add: sighting_def survey7_def)
  have ra: "longest_run (detected_on (dr_Date ([survey5] ! 0)) (map Date ?a)) = 2"
    by code_simp
  have rb: "longest_run (detected_on (dr_Date ([survey7] ! 0)) (map Date ?b)) = 3"
    by code_simp
  show ?thesis
    using longest_run_of_dates_minus_one[OF l5 c5 da sa]
      longest_run_of_dates_minus_one[OF l7 c7 db sb] ra rb
    by simp
qed

section \<open>Grouping and aggregation\<close>

lemma remdups_constant:
  "xs \<noteq> [] \<Longrightarrow> \<forall>x\<in>set xs. x = k \<Longrightarrow> remdups xs = [k]"
proof (induction xs)
  case Nil
  then show ?case by simp
next
  case (Cons x xs)
  then show ?case by (cases xs) auto
qed

lemma groupby_single:
  assumes "df \<noteq> []" "\<forall>r\<in>set df. key r = k"
  shows "groupby key df = [(k, df)]"
proof -
  have "remdups (map key df) = [k]"
    using assms by (intro remdups_constant) auto
  moreover have "filter (\<lambda>r. key r = k) df = df" using assms(2) by (simp add: filter_id_conv)
  ultimately show ?thesis by (simp add: groupby_def)
qed

lemma groupby_length_one:
  assumes "length (groupby key df) = 1"
  shows "df \<noteq> [] \<and> (\<exists>k. \<forall>r\<in>set df. key r = k)"
proof -
  have "length (remdups (map key df)) = 1" using assms by (simp add: groupby_def)
  then have "card (set (map key df)) = 1" by (simp add: length_remdups_card_conv)
  then obtain k where "set (map key df) = {k}" by (rule card_1_singletonE)
  then show ?thesis by auto
qed

lemma groupby_member:
  "(k, g) \<in> set (groupby key df) \<longleftrightarrow> k \<in> key ` set df \<and> g = filter (\<lambda>r. key r = k) df"
  by (auto simp: groupby_def)

lemma sort_Nil_iff: "sort xs = [] \<longleftrightarrow> xs = []"
  by (metis length_sort length_0_conv)

lemma groupby_Nil_iff: "groupby key df = [] \<longleftrightarrow> df = []"
  by (simp add: groupby_def sort_Nil_iff)

lemma py_max_Inr:
  assumes "py_max xs = Inr m"
  shows "m \<in> set xs \<and> (\<forall>x\<in>set xs. x \<le> m)"
proof (cases xs)
  case Nil
  then show ?thesis using assms by (simp add: py_max_def)
next
  case (Cons x ys)
  then have "m = Max (set xs)" using assms Max.set_eq_fold[of x ys] by (simp add: py_max_def)
  moreover have "set xs \<noteq> {}" using Cons by simp
  ultimately show ?thesis by simp
qed

lemma py_max_Cons: "\<exists>m. py_max (x # xs) = Inr m"
  by (simp add: py_max_def)

lemma py_min_Cons: "\<exists>m. py_min (x # xs) = Inr m"
  by (simp add: py_min_def)

lemma py_max_Nil: "py_max [] = Inl ValueError"
  by (simp add: py_max_def)

lemma aggregate_nest_Nil: "aggregate_nest env t [] = Inl ValueError"
  by (simp add: aggregate_nest_def summed_scores_def groupby_def py_max_def)

lemma summed_scores_member:
  assumes "\<forall>r\<in>set nd. Site r = s \<and> Year r = y \<and> target_ind r = t"
  shows "(k, v, c) \<in> set (summed_scores env nd) \<longleftrightarrow>
         (\<exists>l\<in>label ` set nd. k = (s, y, t, l) \<and> v = label_sum env nd l \<and> c = label_count nd l)"
proof -
  have f: "\<And>l. filter (\<lambda>r. (Site r, Year r, target_ind r, label r) = (s, y, t, l)) nd
              = filter (\<lambda>r. label r = l) nd"
    using assms by (intro filter_cong) auto
  have "(k, v, c) \<in> set (summed_scores env nd) \<longleftrightarrow>
        (\<exists>g. (k, g) \<in> set (groupby (\<lambda>r. (Site r, Year r, target_ind r, label r)) nd)
             \<and> v = series_sum env (map score g) \<and> c = int (length g))"
    by (auto simp: summed_scores_def)
  also have "\<dots> \<longleftrightarrow> (\<exists>l\<in>label ` set nd. k = (s, y, t, l) \<and> v = label_sum env nd l \<and> c = label_count nd l)"
    unfolding groupby_member label_sum_def label_count_def using assms f by auto
  finally show ?thesis .
qed

lemma aggregate_nest_ok:
  assumes ne: "nd \<noteq> []"
    and same: "\<forall>r\<in>set nd. Site r = s \<and> Year r = y \<and> target_ind r = t"
  shows "\<exists>row. aggregate_nest env t nd = Inr row \<and> nest_id row = t
    \<and> nest_Site row = s \<and> nest_Year row = y
    \<and> xmean row = (mean (map match_xmin nd) + mean (map match_xmax nd)) / 2
    \<and> ymean row = (mean (map match_ymin nd) + mean (map match_ymax nd)) / 2
    \<and> num_obs row = int (length nd)
    \<and> species row \<in> label ` set nd
    \<and> (\<forall>l\<in>label ` set nd. label_sum env nd l \<le> label_sum env nd (species row))
    \<and> sum_top1 row = label_sum env nd (species row)
    \<and> num_top1 row = label_count nd (species row)"
proof -
  let ?summed = "summed_scores env nd"
  let ?sums = "map (\<lambda>(k, s, c). s) ?summed"
  have "?summed \<noteq> []" using ne by (simp add: summed_scores_def groupby_Nil_iff)
  then obtain x xs where "?sums = x # xs" by (cases ?sums) auto
  then obtain m where m: "py_max ?sums = Inr m" using py_max_Cons[of x xs] by auto
  from py_max_Inr[OF m] have m_in: "m \<in> set ?sums" and m_ge: "\<forall>v\<in>set ?sums. v \<le> m" by auto
  let ?top = "filter (\<lambda>(k, s, c). s = m) ?summed"
  from m_in have "?top \<noteq> []" by (auto simp: filter_empty_conv)
  then obtain e rest where top: "?top = e # rest" by (cases ?top) auto
  then have "e \<in> set ?top" by simp
  then have e_in: "e \<in> set ?summed" and e_m: "(case e of (k, s, c) \<Rightarrow> s = m)" by auto
  obtain k v c where e: "e = (k, v, c)" by (cases e) auto
  from e_in e summed_scores_member[OF same, of k v c]
  obtain l where l: "l \<in> label ` set nd" "k = (s, y, t, l)" "v = label_sum env nd l"
    "c = label_count nd l" by auto
  have vm: "v = m" using e_m e by simp
  have info: "groupby (\<lambda>r. (Site r, Year r, target_ind r)) nd = [((s, y, t), nd)]"
    using ne same by (intro groupby_single) auto
  obtain d ds where "map Date nd = d # ds" using ne by (cases nd) auto
  then obtain dmin dmax where dm: "py_min (map Date nd) = Inr dmin" "py_max (map Date nd) = Inr dmax"
    using py_min_Cons[of d ds] py_max_Cons[of d ds] by auto
  have top': "filter (\<lambda>(k, s, c). s = m) (summed_scores env nd) = ((s, y, t, l), v, c) # rest"
    using top e l(2) by simp
  have agg: "aggregate_nest env t nd = Inr \<lparr>nest_id = t, nest_Site = s, nest_Year = y,
        xmean = (mean (map match_xmin nd) + mean (map match_xmax nd)) / 2,
        ymean = (mean (map match_ymin nd) + mean (map match_ymax nd)) / 2,
        first_obs = dmin, last_obs = dmax, num_obs = int (length nd),
        species = l, sum_top1 = v, num_top1 = c,
        bird_match = join '','' (map (\<lambda>r. str_int (bird_id r)) nd)\<rparr>"
    unfolding aggregate_nest_def Let_def m sum.case top' info at0_def list.case prod.case dm
    by simp
  have ge: "\<forall>l'\<in>label ` set nd. label_sum env nd l' \<le> label_sum env nd l"
  proof
    fix l' assume "l' \<in> label ` set nd"
    then have "((s, y, t, l'), label_sum env nd l', label_count nd l') \<in> set ?summed"
      using summed_scores_member[OF same] by blast
    then have "label_sum env nd l' \<in> set ?sums" by force
    then show "label_sum env nd l' \<le> label_sum env nd l" using m_ge vm l(3) by auto
  qed
  show ?thesis using agg l ge by simp
qed

section \<open>The loop over the targets\<close>

lemma set_unique: "set (unique xs) = set xs"
  by (simp add: unique_def)

lemma distinct_unique: "distinct (unique xs)"
  by (simp add: unique_def)

lemma one_survey:
  assumes "length (make_date_data nd) = 1"
  shows "nd \<noteq> [] \<and> (\<exists>s y. \<forall>r\<in>set nd. Site r = s \<and> Year r = y)"
proof -
  have "length (groupby (\<lambda>r. (Site r, Year r)) nd) = 1"
    using assms by (simp add: make_date_data_def)
  from groupby_length_one[OF this] show ?thesis by auto
qed

lemma make_date_data_single:
  assumes "nd \<noteq> []" "\<forall>r\<in>set nd. Site r = s \<and> Year r = y"
  shows "make_date_data nd = [\<lparr>dr_Site = s, dr_Year = y, dr_Date = unique (map Date nd)\<rparr>]"
proof -
  have "groupby (\<lambda>r. (Site r, Year r)) nd = [((s, y), nd)]"
    using assms by (intro groupby_single) auto
  then show ?thesis by (simp add: make_date_data_def)
qed

lemma select_nest_data_member:
  "r \<in> set (select_nest_data nd t ms) \<longleftrightarrow> r \<in> set nd \<and> target_ind r = t \<and> ms \<le> score r"
  by (auto simp: select_nest_data_def)

lemma aggregate_nest_id: "aggregate_nest env t nd = Inr row \<Longrightarrow> nest_id row = t"
  by (auto simp: aggregate_nest_def Let_def split: sum.splits prod.splits)

lemma process_target_acc:
  "process_target env nd dd ms md mc t acc =
     (case process_target env nd dd ms md mc t [] of Inl e \<Rightarrow> Inl e | Inr r \<Rightarrow> Inr (acc @ r))"
  by (auto simp: process_target_def Let_def split: sum.splits)

lemma process_target_dropped:
  assumes "count_max_consec_detects (select_nest_data nd t ms) dd = Inr n"
    and "\<not> (md \<le> int (length (select_nest_data nd t ms)) \<or> mc \<le> n)"
  shows "process_target env nd dd ms md mc t acc = Inr acc"
  using assms by (simp add: process_target_def Let_def)

lemma process_target_kept:
  assumes "count_max_consec_detects (select_nest_data nd t ms) dd = Inr n"
    and "md \<le> int (length (select_nest_data nd t ms)) \<or> mc \<le> n"
  shows "process_target env nd dd ms md mc t acc =
           (case aggregate_nest env t (select_nest_data nd t ms) of
              Inl e \<Rightarrow> Inl e | Inr row \<Rightarrow> Inr (acc @ [row]))"
  using assms by (simp add: process_target_def Let_def)

lemma process_target_Inr_count:
  "process_target env nd dd ms md mc t acc = Inr r \<Longrightarrow>
     \<exists>n. count_max_consec_detects (select_nest_data nd t ms) dd = Inr n"
  by (auto simp: process_target_def Let_def split: sum.splits)

lemma target_loop_Inr:
  "target_loop env nd dd ms md mc ts acc = Inr out \<Longrightarrow>
     out = acc @ concat (map (target_rows env nd dd ms md mc) ts)
     \<and> (\<forall>t\<in>set ts. \<exists>r. process_target env nd dd ms md mc t [] = Inr r)"
proof (induction ts arbitrary: acc)
  case Nil
  then show ?case by simp
next
  case (Cons t ts)
  from Cons.prems obtain acc' where s: "process_target env nd dd ms md mc t acc = Inr acc'"
    and l: "target_loop env nd dd ms md mc ts acc' = Inr out"
    by (auto split: sum.splits)
  from s obtain r where r: "process_target env nd dd ms md mc t [] = Inr r" "acc' = acc @ r"
    using process_target_acc[of env nd dd ms md mc t acc] by (auto split: sum.splits)
  have tr: "target_rows env nd dd ms md mc t = r" using r(1) by (simp add: target_rows_def)
  from Cons.IH[OF l] show ?case using r tr by auto
qed

lemma target_loop_ok:
  "\<forall>t\<in>set ts. \<exists>r. process_target env nd dd ms md mc t [] = Inr r \<Longrightarrow>
     target_loop env nd dd ms md mc ts acc = Inr (acc @ concat (map (target_rows env nd dd ms md mc) ts))"
proof (induction ts arbitrary: acc)
  case Nil
  then show ?case by simp
next
  case (Cons t ts)
  then obtain r where r: "process_target env nd dd ms md mc t [] = Inr r" by auto
  then have s: "process_target env nd dd ms md mc t acc = Inr (acc @ r)"
    using process_target_acc[of env nd dd ms md mc t acc] by simp
  have tr: "target_rows env nd dd ms md mc t = r" using r by (simp add: target_rows_def)
  from Cons.IH[of "acc @ r"] Cons.prems show ?case using s tr by simp
qed

lemma target_loop_error:
  assumes "\<forall>t\<in>set ts. \<forall>acc. (\<exists>r. process_target env nd dd ms md mc t acc = Inr r)
             \<or> process_target env nd dd ms md mc t acc = Inl e"
    and "\<exists>t\<in>set ts. \<forall>acc. process_target env nd dd ms md mc t acc = Inl e"
  shows "target_loop env nd dd ms md mc ts acc = Inl e"
  using assms
proof (induction ts arbitrary: acc)
  case Nil
  then show ?case by simp
next
  case (Cons t ts)
  show ?case
  proof (cases "process_target env nd dd ms md mc t acc")
    case (Inl e')
    then have "e' = e" using Cons.prems(1) by (metis Inl_Inr_False list.set_intros(1) sum.inject(1))
    then show ?thesis using Inl by simp
  next
    case (Inr acc')
    then have "\<exists>t\<in>set ts. \<forall>acc. process_target env nd dd ms md mc t acc = Inl e"
      using Cons.prems(2) by auto
    from Cons.IH[OF _ this, of acc'] Cons.prems(1) show ?thesis using Inr by simp
  qed
qed

lemma filter_concat_own:
  assumes "distinct ts" "t \<in> set ts" "\<And>t' r. r \<in> set (f t') \<Longrightarrow> g r = t'"
  shows "filter (\<lambda>r. g r = t) (concat (map f ts)) = f t"
  using assms(1,2)
proof (induction ts)
  case Nil
  then show ?case by simp
next
  case (Cons a ts)
  have own: "filter (\<lambda>r. g r = t) (f t) = f t"
    using assms(3) by (simp add: filter_id_conv)
  have other: "\<And>t'. t' \<noteq> t \<Longrightarrow> filter (\<lambda>r. g r = t) (f t') = []"
    using assms(3) by (auto simp: filter_empty_conv)
  have none: "t \<notin> set ts \<Longrightarrow> filter (\<lambda>r. g r = t) (concat (map f ts)) = []"
    using assms(3) by (auto simp: filter_empty_conv)
  show ?case
  proof (cases "a = t")
    case True
    then have "t \<notin> set ts" using Cons.prems by simp
    then show ?thesis using True own none by simp
  next
    case False
    then have "t \<in> set ts" "distinct ts" using Cons.prems by auto
    then show ?thesis using Cons.IH other[of a] False by simp
  qed
qed

lemma target_rows_id:
  "r \<in> set (target_rows env nd dd ms md mc t) \<Longrightarrow> nest_id r = t"
  by (auto simp: target_rows_def process_target_def Let_def aggregate_nest_id
           split: sum.splits if_splits)

lemma process_nests_Inr:
  assumes "process_nests env nd year site savedir ms md mc = Inr out"
  shows "records out = concat (map (target_rows env nd (make_date_data nd) ms md mc)
                                 (unique (map target_ind nd)))
         \<and> (\<forall>t\<in>target_ind ` set nd. \<exists>r. process_target env nd (make_date_data nd) ms md mc t [] = Inr r)"
proof -
  from assms obtain nests where
    l: "target_loop env nd (make_date_data nd) ms md mc (unique (map target_ind nd)) [] = Inr nests"
    by (auto simp: process_nests_def Let_def split: sum.splits)
  then have "records out = nests"
    using assms
    by (auto simp: process_nests_def Let_def written_file_def split: option.splits if_splits)
  then show ?thesis using target_loop_Inr[OF l] by (simp add: set_unique)
qed

lemma count_max_Inr_one_row:
  "count_max_consec_detects sel dd = Inr n \<Longrightarrow> length dd = 1"
  by (auto simp: count_max_consec_detects_def split: if_splits)

lemma count_max_Nil:
  "length dd = 1 \<Longrightarrow> count_max_consec_detects [] dd = Inr 0"
  using count_max_one_row[of dd "[]"] by (simp add: nest_ranks_def diff_def)

lemma select_same:
  assumes "\<forall>r\<in>set nd. Site r = s \<and> Year r = y"
  shows "\<forall>r\<in>set (select_nest_data nd t ms). Site r = s \<and> Year r = y \<and> target_ind r = t"
  using assms by (simp add: select_nest_data_member)

lemma process_target_total:
  assumes "length (make_date_data nd) = 1"
  shows "(\<exists>r. process_target env nd (make_date_data nd) ms md mc t acc = Inr r)
         \<or> process_target env nd (make_date_data nd) ms md mc t acc = Inl ValueError"
proof -
  let ?sel = "select_nest_data nd t ms"
  obtain n where n: "count_max_consec_detects ?sel (make_date_data nd) = Inr n"
    using count_max_one_row[OF assms, of ?sel] by simp
  from one_survey[OF assms] obtain s y where sy: "\<forall>r\<in>set nd. Site r = s \<and> Year r = y" by auto
  show ?thesis
  proof (cases "md \<le> int (length ?sel) \<or> mc \<le> n")
    case False
    then show ?thesis using process_target_dropped[OF n] by simp
  next
    case True
    note kept = process_target_kept[OF n True, where acc = acc and env = env]
    show ?thesis
    proof (cases "?sel = []")
      case True
      then show ?thesis using kept aggregate_nest_Nil by simp
    next
      case False
      from aggregate_nest_ok[OF False select_same[OF sy]]
      obtain row where "aggregate_nest env t ?sel = Inr row" by blast
      then show ?thesis using kept by simp
    qed
  qed
qed

lemma emitted_row:
  assumes p: "process_nests env nd year site savedir ms md mc = Inr out"
    and row: "row \<in> set (records out)"
  shows "select_nest_data nd (nest_id row) ms \<noteq> []
    \<and> aggregate_nest env (nest_id row) (select_nest_data nd (nest_id row) ms) = Inr row
    \<and> (\<exists>s y. \<forall>r\<in>set (select_nest_data nd (nest_id row) ms).
           Site r = s \<and> Year r = y \<and> target_ind r = nest_id row)"
proof -
  let ?dd = "make_date_data nd"
  from process_nests_Inr[OF p] have
    rec: "records out = concat (map (target_rows env nd ?dd ms md mc) (unique (map target_ind nd)))"
    and ok: "\<forall>t\<in>target_ind ` set nd. \<exists>r. process_target env nd ?dd ms md mc t [] = Inr r"
    by auto
  from row rec obtain t where t: "t \<in> target_ind ` set nd" "row \<in> set (target_rows env nd ?dd ms md mc t)"
    by (auto simp: set_unique)
  have id: "nest_id row = t" using t(2) by (rule target_rows_id)
  let ?sel = "select_nest_data nd t ms"
  from ok t(1) obtain r where r: "process_target env nd ?dd ms md mc t [] = Inr r" by auto
  then have tr: "target_rows env nd ?dd ms md mc t = r" by (simp add: target_rows_def)
  from process_target_Inr_count[OF r] obtain n where n: "count_max_consec_detects ?sel ?dd = Inr n"
    by auto
  from one_survey[OF count_max_Inr_one_row[OF n]] obtain s y
    where sy: "\<forall>r\<in>set nd. Site r = s \<and> Year r = y" by auto
  have kept: "md \<le> int (length ?sel) \<or> mc \<le> n"
  proof (rule ccontr)
    assume "\<not> ?thesis"
    from process_target_dropped[OF n this, where acc = "[]" and env = env] r have "r = []" by simp
    then show False using t(2) tr by simp
  qed
  from process_target_kept[OF n kept, where acc = "[]" and env = env] r
  have agg: "aggregate_nest env t ?sel = Inr row"
    using t(2) tr by (auto split: sum.splits)
  then have "?sel \<noteq> []" using aggregate_nest_Nil by auto
  then show ?thesis using agg select_same[OF sy, of t ms] id by auto
qed

lemma process_nests_returns:
  assumes "nd = [] \<or> length (make_date_data nd) = 1" "1 \<le> md" "1 \<le> mc"
    and "os_path_exists env savedir \<or> os_makedirs env savedir = None"
    and "\<forall>c. to_file env c = None"
  shows "\<exists>out. process_nests env nd year site savedir ms md mc = Inr out"
proof -
  let ?dd = "make_date_data nd"
  have "\<forall>t\<in>set (unique (map target_ind nd)). \<exists>r. process_target env nd ?dd ms md mc t [] = Inr r"
  proof
    fix t assume "t \<in> set (unique (map target_ind nd))"
    then have "nd \<noteq> []" by (auto simp: set_unique)
    then have one: "length ?dd = 1" using assms(1) by simp
    show "\<exists>r. process_target env nd ?dd ms md mc t [] = Inr r"
    proof (cases "select_nest_data nd t ms = []")
      case True
      then have "count_max_consec_detects (select_nest_data nd t ms) ?dd = Inr 0"
        using count_max_Nil[OF one] by simp
      from process_target_dropped[OF this, where md = md and mc = mc and acc = "[]" and env = env] True assms(2,3) show ?thesis by simp
    next
      case False
      from one_survey[OF one] obtain s y where sy: "\<forall>r\<in>set nd. Site r = s \<and> Year r = y" by auto
      from aggregate_nest_ok[OF False select_same[OF sy]]
      obtain row where a: "aggregate_nest env t (select_nest_data nd t ms) = Inr row" by blast
      from count_max_one_row[OF one, of "select_nest_data nd t ms"]
      obtain n where n: "count_max_consec_detects (select_nest_data nd t ms) ?dd = Inr n" by simp
      show ?thesis
        using process_target_dropped[OF n, where md = md and mc = mc and acc = "[]" and env = env] process_target_kept[OF n, where md = md and mc = mc and acc = "[]" and env = env] a
        by (cases "md \<le> int (length (select_nest_data nd t ms)) \<or> mc \<le> n") auto
    qed
  qed
  from target_loop_ok[OF this, where acc = "[]"] show ?thesis
    using assms(4,5) by (auto simp: process_nests_def Let_def)
qed

section \<open>Ranks against the calendar of the table\<close>

lemma select_nest_data_filter:
  "select_nest_data nd t ms = filter (\<lambda>r. target_ind r = t \<and> ms \<le> score r) nd"
  by (simp add: select_nest_data_def)

lemma count_max_calendar:
  assumes "length dd = 1" "sort (dr_Date (dd ! 0)) = sort cal"
  shows "count_max_consec_detects sel dd =
         count_max_consec_detects sel [\<lparr>dr_Site = s, dr_Year = y, dr_Date = cal\<rparr>]"
proof -
  have "nest_ranks (dr_Date (dd ! 0)) (map Date sel) = nest_ranks cal (map Date sel)"
    using assms(2) by (simp add: nest_ranks_def)
  then show ?thesis
    using count_max_one_row[OF assms(1), of sel]
      count_max_one_row[of "[\<lparr>dr_Site = s, dr_Year = y, dr_Date = cal\<rparr>]" sel]
    by simp
qed

lemma calendar_of_table:
  assumes "length (make_date_data nd) = 1" "distinct cal" "set cal = Date ` set nd"
  shows "sort (dr_Date (make_date_data nd ! 0)) = sort cal"
proof -
  from one_survey[OF assms(1)] obtain s y where
    ne: "nd \<noteq> []" and sy: "\<forall>r\<in>set nd. Site r = s \<and> Year r = y" by auto
  have d: "dr_Date (make_date_data nd ! 0) = unique (map Date nd)"
    using make_date_data_single[OF ne sy] by simp
  show ?thesis unfolding d
  proof (rule sorted_distinct_set_unique)
    show "sorted (sort (unique (map Date nd)))" by simp
    show "distinct (sort (unique (map Date nd)))" by (simp add: distinct_unique)
    show "sorted (sort cal)" by simp
    show "distinct (sort cal)" using assms(2) by simp
    show "set (sort (unique (map Date nd))) = set (sort cal)"
      using assms(3) by (simp add: set_unique)
  qed
qed

lemma count_earlier_sorted:
  "sorted xs \<Longrightarrow> distinct xs \<Longrightarrow> i < length xs \<Longrightarrow>
   length (filter (\<lambda>c. c < xs ! i) xs) = i"
proof (induction xs arbitrary: i)
  case Nil
  then show ?case by simp
next
  case (Cons x xs)
  show ?case
  proof (cases i)
    case 0
    have "\<forall>c\<in>set xs. \<not> c < x" using Cons.prems(1) by auto
    then have "filter (\<lambda>c. c < x) xs = []" by (simp add: filter_empty_conv)
    then show ?thesis using 0 by simp
  next
    case (Suc j)
    then have j: "j < length xs" using Cons.prems by simp
    then have "xs ! j \<in> set xs" by simp
    then have "x < xs ! j" using Cons.prems(1,2) by (metis distinct.simps(2) order_le_less sorted_simps(2))
    moreover have "length (filter (\<lambda>c. c < xs ! j) xs) = j"
      using Cons.IH[OF _ _ j] Cons.prems by simp
    ultimately show ?thesis using Suc by simp
  qed
qed

lemma length_filter_sort: "length (filter P (sort xs)) = length (filter P xs)"
  by (simp add: filter_sort)

lemma sorted_dates_dict_rank:
  assumes "distinct cal" "d \<in> set cal"
  shows "sorted_dates_dict (sort cal) d = Some (length (filter (\<lambda>c. c < d) cal))"
proof -
  have ds: "distinct (sort cal)" using assms(1) by simp
  from assms(2) have "d \<in> set (sort cal)" by simp
  then obtain i where i: "i < length (sort cal)" "sort cal ! i = d"
    by (metis in_set_conv_nth)
  have "length (filter (\<lambda>c. c < d) (sort cal)) = i"
    using count_earlier_sorted[OF _ ds i(1)] i(2) by simp
  then have "length (filter (\<lambda>c. c < d) cal) = i" by (simp add: length_filter_sort)
  then show ?thesis using sorted_dates_dict_nth[OF ds i(1)] i(2) by simp
qed

lemma nest_ranks_calendar_rank:
  assumes "distinct cal" "set ds \<subseteq> set cal"
  shows "nest_ranks cal ds = map (\<lambda>d. Some (calendar_rank cal d)) (sort ds)"
  using assms sorted_dates_dict_rank[OF assms(1)]
  by (auto simp: nest_ranks_def calendar_rank_def)

text \<open>
  C9. With a survey-date table of one row, a calendar without repeated dates and a target
  whose dates are all in the calendar: take the target's dates in ascending order and
  replace each by its rank in the calendar. When the longest block of consecutive ranks in
  that sequence has \<open>k \<ge> 2\<close> members, \<^verbatim>\<open>count_max_consec_detects\<close> returns \<open>k - 1\<close>: it
  counts the rank differences equal to 1 inside the block, not the dates of the block.
\<close>

theorem longest_block_minus_one:
  assumes "length date_data = 1"
    and "distinct (dr_Date (date_data ! 0))"
    and "set (map Date nest_data) \<subseteq> set (dr_Date (date_data ! 0))"
    and "longest_block (map (\<lambda>d. Some (calendar_rank (dr_Date (date_data ! 0)) d))
                            (sort (map Date nest_data))) = k"
    and "2 \<le> k"
  shows "count_max_consec_detects nest_data date_data = Inr (int k - 1)"
proof -
  have "nest_ranks (dr_Date (date_data ! 0)) (map Date nest_data)
        = map (\<lambda>d. Some (calendar_rank (dr_Date (date_data ! 0)) d)) (sort (map Date nest_data))"
    by (rule nest_ranks_calendar_rank[OF assms(2,3)])
  then show ?thesis using nest_ranks_block_minus_one[OF assms(1) _ assms(5)] assms(4) by simp
qed

theorem longest_block_minus_one_witness:
  "longest_block (map (\<lambda>d. Some (calendar_rank (dr_Date ([survey7] ! 0)) d))
      (sort (map Date [sighting ''d7'', sighting ''d1'', sighting ''d3'', sighting ''d2'',
                       sighting ''d6'']))) = 3
   \<and> count_max_consec_detects
        [sighting ''d7'', sighting ''d1'', sighting ''d3'', sighting ''d2'', sighting ''d6'']
        [survey7] = Inr 2"
proof -
  let ?nd = "[sighting ''d7'', sighting ''d1'', sighting ''d3'', sighting ''d2'', sighting ''d6'']"
  have l: "length [survey7] = 1" by simp
  have c: "distinct (dr_Date ([survey7] ! 0))" by (simp add: survey7_def)
  have s: "set (map Date ?nd) \<subseteq> set (dr_Date ([survey7] ! 0))"
    by (simp add: sighting_def survey7_def)
  have b: "longest_block (map (\<lambda>d. Some (calendar_rank (dr_Date ([survey7] ! 0)) d))
      (sort (map Date ?nd))) = 3"
    by code_simp
  have k: "2 \<le> (3::nat)" by simp
  show ?thesis using longest_block_minus_one[OF l c s b k] b by simp
qed

section \<open>Retention, aggregation and output\<close>

lemma run_against_calendar:
  assumes "count_max_consec_detects sel (make_date_data nd) = Inr n"
    and "distinct cal" "set cal = Date ` set nd"
  shows "count_max_consec_detects sel [\<lparr>dr_Site = s, dr_Year = y, dr_Date = cal\<rparr>] = Inr n"
proof -
  have one: "length (make_date_data nd) = 1" using assms(1) by (rule count_max_Inr_one_row)
  from count_max_calendar[OF one calendar_of_table[OF one assms(2,3)], of sel s y] assms(1)
  show ?thesis by simp
qed

text \<open>
  C3. When \<^verbatim>\<open>process_nests\<close> returns, every target of the table has a run length,
  computed over its detections with \<open>score \<ge> min_score\<close> against the calendar of all
  dates of the table, and the output holds exactly one row for the target if the number
  of those detections is at least \<open>min_detections\<close> or the run length is at least
  \<open>min_consec_detects\<close>, and no row otherwise. (\<open>process_nests_returns\<close> shows that it
  returns for a table of one survey and thresholds of at least 1, when the directory and
  the write succeed.)
\<close>

theorem retention_rule:
  assumes "process_nests env nd year site savedir ms md mc = Inr out"
    and "t \<in> target_ind ` set nd"
    and "distinct cal" and "set cal = Date ` set nd"
  shows "\<exists>n. count_max_consec_detects (filter (\<lambda>r. target_ind r = t \<and> ms \<le> score r) nd)
                [\<lparr>dr_Site = s, dr_Year = y, dr_Date = cal\<rparr>] = Inr n
     \<and> length (filter (\<lambda>row. nest_id row = t) (records out)) =
         (if md \<le> int (length (filter (\<lambda>r. target_ind r = t \<and> ms \<le> score r) nd)) \<or> mc \<le> n
          then 1 else 0)"
proof -
  let ?dd = "make_date_data nd"
  let ?sel = "select_nest_data nd t ms"
  from process_nests_Inr[OF assms(1)] have
    rec: "records out = concat (map (target_rows env nd ?dd ms md mc) (unique (map target_ind nd)))"
    and ok: "\<forall>t\<in>target_ind ` set nd. \<exists>r. process_target env nd ?dd ms md mc t [] = Inr r"
    by auto
  from ok assms(2) obtain r where r: "process_target env nd ?dd ms md mc t [] = Inr r" by auto
  then have tr: "target_rows env nd ?dd ms md mc t = r" by (simp add: target_rows_def)
  from process_target_Inr_count[OF r] obtain n where n: "count_max_consec_detects ?sel ?dd = Inr n"
    by auto
  have "t \<in> set (unique (map target_ind nd))" using assms(2) by (simp add: set_unique)
  from filter_concat_own[OF distinct_unique this, of "target_rows env nd ?dd ms md mc" nest_id]
  have f: "filter (\<lambda>row. nest_id row = t) (records out) = r"
    using rec tr target_rows_id by simp
  have "length r = (if md \<le> int (length ?sel) \<or> mc \<le> n then 1 else 0)"
  proof (cases "md \<le> int (length ?sel) \<or> mc \<le> n")
    case True
    from process_target_kept[OF n True, where acc = "[]" and env = env] r show ?thesis
      using True by (auto split: sum.splits)
  next
    case False
    from process_target_dropped[OF n False, where acc = "[]" and env = env] r show ?thesis
      using False by simp
  qed
  then show ?thesis
    using run_against_calendar[OF n assms(3,4), of s y] f
    by (auto simp: select_nest_data_filter)
qed

theorem retention_rule_witness:
  "process_nests exact_env table_pair ''2020'' ''Joule'' ''out'' (3 / 10) 3 1 = Inr pair_output
   \<and> length (filter (\<lambda>r. target_ind r = 1 \<and> 3 / 10 \<le> score r) table_pair) = 2
   \<and> length table_pair = 3
   \<and> count_max_consec_detects (filter (\<lambda>r. target_ind r = 1 \<and> 3 / 10 \<le> score r) table_pair)
        [\<lparr>dr_Site = ''Joule'', dr_Year = ''2020'', dr_Date = [''d1'', ''d2'', ''d3'']\<rparr>] = Inr 1
   \<and> length (filter (\<lambda>row. nest_id row = 1) (records pair_output)) = 1
   \<and> process_nests exact_env table_gap ''2020'' ''Joule'' ''out'' (3 / 10) 3 2 = Inr empty_output
   \<and> length (filter (\<lambda>r. target_ind r = 1 \<and> 3 / 10 \<le> score r) table_gap) = 2
   \<and> length table_gap = 3
   \<and> count_max_consec_detects (filter (\<lambda>r. target_ind r = 1 \<and> 3 / 10 \<le> score r) table_gap)
        [\<lparr>dr_Site = ''Joule'', dr_Year = ''2020'', dr_Date = [''d1'', ''d2'', ''d3'']\<rparr>] = Inr 0
   \<and> length (filter (\<lambda>row. nest_id row = 1) (records empty_output)) = 0"
proof -
  have p1: "process_nests exact_env table_pair ''2020'' ''Joule'' ''out'' (3 / 10) 3 1
            = Inr pair_output"
    by code_simp
  have t1: "1 \<in> target_ind ` set table_pair" by code_simp
  have d: "distinct [''d1'', ''d2'', ''d3'']" by simp
  have s1: "set [''d1'', ''d2'', ''d3''] = Date ` set table_pair"
    by (auto simp: table_pair_def observed_def)
  have l1: "length (filter (\<lambda>r. target_ind r = 1 \<and> 3 / 10 \<le> score r) table_pair) = 2"
    by (simp add: table_pair_def observed_def)
  have c1: "count_max_consec_detects (filter (\<lambda>r. target_ind r = 1 \<and> 3 / 10 \<le> score r) table_pair)
        [\<lparr>dr_Site = ''Joule'', dr_Year = ''2020'', dr_Date = [''d1'', ''d2'', ''d3'']\<rparr>] = Inr 1"
    by code_simp
  have p2: "process_nests exact_env table_gap ''2020'' ''Joule'' ''out'' (3 / 10) 3 2
            = Inr empty_output"
    by code_simp
  have t2: "1 \<in> target_ind ` set table_gap" by code_simp
  have s2: "set [''d1'', ''d2'', ''d3''] = Date ` set table_gap"
    by (auto simp: table_gap_def observed_def)
  have l2: "length (filter (\<lambda>r. target_ind r = 1 \<and> 3 / 10 \<le> score r) table_gap) = 2"
    by (simp add: table_gap_def observed_def)
  have c2: "count_max_consec_detects (filter (\<lambda>r. target_ind r = 1 \<and> 3 / 10 \<le> score r) table_gap)
        [\<lparr>dr_Site = ''Joule'', dr_Year = ''2020'', dr_Date = [''d1'', ''d2'', ''d3'']\<rparr>] = Inr 0"
    by code_simp
  have n1: "length table_pair = 3" "length table_gap = 3"
    by (simp_all add: table_pair_def table_gap_def)
  show ?thesis
    using retention_rule[OF p1 t1 d s1, of "''Joule''" "''2020''"]
      retention_rule[OF p2 t2 d s2, of "''Joule''" "''2020''"] p1 p2 l1 l2 c1 c2 n1
    by simp
qed

text \<open>
  C5. Every row of the output has \<open>xmean = (mean match_xmin + mean match_xmax) / 2\<close> and
  \<open>ymean = (mean match_ymin + mean match_ymax) / 2\<close>, the means taken over all detections
  of the target with \<open>score \<ge> min_score\<close>, whatever their label.
\<close>

theorem nest_centre_mean_of_box_means:
  assumes "process_nests env nd year site savedir ms md mc = Inr out"
    and "row \<in> set (records out)"
    and "F = filter (\<lambda>r. target_ind r = nest_id row \<and> ms \<le> score r) nd"
  shows "F \<noteq> []
    \<and> xmean row = (sum_list (map match_xmin F) / real (length F)
                   + sum_list (map match_xmax F) / real (length F)) / 2
    \<and> ymean row = (sum_list (map match_ymin F) / real (length F)
                   + sum_list (map match_ymax F) / real (length F)) / 2"
proof -
  let ?sel = "select_nest_data nd (nest_id row) ms"
  have F: "F = ?sel" using assms(3) by (simp add: select_nest_data_filter)
  from emitted_row[OF assms(1,2)] obtain s y where
    ne: "?sel \<noteq> []" and agg: "aggregate_nest env (nest_id row) ?sel = Inr row"
    and same: "\<forall>r\<in>set ?sel. Site r = s \<and> Year r = y \<and> target_ind r = nest_id row"
    by blast
  from aggregate_nest_ok[OF ne same, of env] agg show ?thesis
    using ne unfolding F by (auto simp: mean_def)
qed

theorem nest_centre_mean_of_box_means_witness:
  "process_nests exact_env table_pair ''2020'' ''Joule'' ''out'' (3 / 10) 3 1 = Inr pair_output
   \<and> pair_nest \<in> set (records pair_output)
   \<and> map (\<lambda>r. (match_xmin r, match_ymin r, match_xmax r, match_ymax r))
        (filter (\<lambda>r. target_ind r = nest_id pair_nest \<and> 3 / 10 \<le> score r) table_pair)
      = [(4, 4, 14, 14), (0, 0, 10, 10)]
   \<and> map (\<lambda>r. (match_xmin r, match_ymin r, match_xmax r, match_ymax r))
        (filter (\<lambda>r. target_ind r = nest_id pair_nest) table_pair)
      = [(100, 100, 200, 200), (4, 4, 14, 14), (0, 0, 10, 10)]
   \<and> xmean pair_nest = 7 \<and> ymean pair_nest = 7"
proof -
  let ?F = "filter (\<lambda>r. target_ind r = nest_id pair_nest \<and> 3 / 10 \<le> score r) table_pair"
  have p: "process_nests exact_env table_pair ''2020'' ''Joule'' ''out'' (3 / 10) 3 1
           = Inr pair_output"
    by code_simp
  have m: "pair_nest \<in> set (records pair_output)" by (simp add: pair_output_def)
  have F: "?F = [observed ''d2'' 1 (1 / 2) ''GBHE'' 12 4 4 14 14,
                 observed ''d1'' 1 (3 / 4) ''GREG'' 11 0 0 10 10]"
    by (simp add: table_pair_def observed_def pair_nest_def)
  have b: "map (\<lambda>r. (match_xmin r, match_ymin r, match_xmax r, match_ymax r)) ?F
           = [(4, 4, 14, 14), (0, 0, 10, 10)]"
    unfolding F by (simp add: observed_def)
  have u: "map (\<lambda>r. (match_xmin r, match_ymin r, match_xmax r, match_ymax r))
        (filter (\<lambda>r. target_ind r = nest_id pair_nest) table_pair)
      = [(100, 100, 200, 200), (4, 4, 14, 14), (0, 0, 10, 10)]"
    by (simp add: table_pair_def observed_def pair_nest_def)
  have "xmean pair_nest = (sum_list (map match_xmin ?F) / real (length ?F)
                   + sum_list (map match_xmax ?F) / real (length ?F)) / 2"
    "ymean pair_nest = (sum_list (map match_ymin ?F) / real (length ?F)
                   + sum_list (map match_ymax ?F) / real (length ?F)) / 2"
    using nest_centre_mean_of_box_means[OF p m refl] by simp_all
  then have v: "xmean pair_nest = 7" "ymean pair_nest = 7"
    unfolding F by (simp_all add: observed_def)
  show ?thesis using p m b u v by simp
qed

text \<open>
  C6. In every row of the output, \<open>species\<close> is a label of the target's detections with
  \<open>score \<ge> min_score\<close> whose summed score, as the library sums it, is greatest among
  the labels of those detections, and \<open>sum_top1\<close> and \<open>num_top1\<close> are the summed score
  and the number of detections of that label.
\<close>

theorem species_has_greatest_summed_score:
  assumes "process_nests env nd year site savedir ms md mc = Inr out"
    and "row \<in> set (records out)"
    and "F = filter (\<lambda>r. target_ind r = nest_id row \<and> ms \<le> score r) nd"
  shows "species row \<in> label ` set F
    \<and> (\<forall>l\<in>label ` set F.
          series_sum env (map score (filter (\<lambda>r. label r = l) F))
            \<le> series_sum env (map score (filter (\<lambda>r. label r = species row) F)))
    \<and> sum_top1 row = series_sum env (map score (filter (\<lambda>r. label r = species row) F))
    \<and> num_top1 row = int (length (filter (\<lambda>r. label r = species row) F))"
proof -
  let ?sel = "select_nest_data nd (nest_id row) ms"
  have F: "F = ?sel" using assms(3) by (simp add: select_nest_data_filter)
  from emitted_row[OF assms(1,2)] obtain s y where
    ne: "?sel \<noteq> []" and agg: "aggregate_nest env (nest_id row) ?sel = Inr row"
    and same: "\<forall>r\<in>set ?sel. Site r = s \<and> Year r = y \<and> target_ind r = nest_id row"
    by blast
  from aggregate_nest_ok[OF ne same, of env] agg show ?thesis
    unfolding F by (auto simp: label_sum_def label_count_def)
qed

theorem species_has_greatest_summed_score_witness:
  "process_nests exact_env table_pair ''2020'' ''Joule'' ''out'' (3 / 10) 3 1 = Inr pair_output
   \<and> pair_nest \<in> set (records pair_output)
   \<and> species pair_nest = ''GREG''
   \<and> ''GBHE'' \<in> label ` set (filter (\<lambda>r. target_ind r = nest_id pair_nest \<and> 3 / 10 \<le> score r)
                                  table_pair)
   \<and> series_sum exact_env (map score (filter (\<lambda>r. label r = ''GBHE'')
        (filter (\<lambda>r. target_ind r = nest_id pair_nest \<and> 3 / 10 \<le> score r) table_pair))) = 1 / 2
   \<and> series_sum exact_env (map score (filter (\<lambda>r. label r = ''GBHE'')
        (filter (\<lambda>r. target_ind r = nest_id pair_nest) table_pair))) = 25 / 32
   \<and> sum_top1 pair_nest = 3 / 4
   \<and> num_top1 pair_nest = 1"
proof -
  let ?F = "filter (\<lambda>r. target_ind r = nest_id pair_nest \<and> 3 / 10 \<le> score r) table_pair"
  have p: "process_nests exact_env table_pair ''2020'' ''Joule'' ''out'' (3 / 10) 3 1
           = Inr pair_output"
    by code_simp
  have m: "pair_nest \<in> set (records pair_output)" by (simp add: pair_output_def)
  have s: "species pair_nest = ''GREG''" by (simp add: pair_nest_def)
  have F: "?F = [observed ''d2'' 1 (1 / 2) ''GBHE'' 12 4 4 14 14,
                 observed ''d1'' 1 (3 / 4) ''GREG'' 11 0 0 10 10]"
    by (simp add: table_pair_def observed_def pair_nest_def)
  have g: "''GBHE'' \<in> label ` set ?F" unfolding F by (simp add: observed_def)
  have lo: "series_sum exact_env (map score (filter (\<lambda>r. label r = ''GBHE'') ?F)) = 1 / 2"
    unfolding F by (simp add: observed_def exact_env_def)
  have un: "series_sum exact_env (map score (filter (\<lambda>r. label r = ''GBHE'')
        (filter (\<lambda>r. target_ind r = nest_id pair_nest) table_pair))) = 25 / 32"
    by (simp add: table_pair_def observed_def pair_nest_def exact_env_def)
  have top: "series_sum exact_env (map score (filter (\<lambda>r. label r = ''GREG'') ?F)) = 3 / 4"
    "int (length (filter (\<lambda>r. label r = ''GREG'') ?F)) = 1"
    unfolding F by (simp_all add: observed_def exact_env_def)
  have "sum_top1 pair_nest = 3 / 4" "num_top1 pair_nest = 1"
    using species_has_greatest_summed_score[OF p m refl] s top by simp_all
  then show ?thesis using p m s g lo un by simp
qed





text \<open>
  C10. For a table of one survey, \<open>min_consec_detects \<le> 0\<close> and a target without any
  detection of \<open>score \<ge> min_score\<close>: the run length of the target is 0, the retention
  test passes, the aggregation of the target raises ValueError (\<^verbatim>\<open>max\<close> of an empty
  sequence), and so does \<^verbatim>\<open>process_nests\<close>.
\<close>

theorem empty_group_raises:
  assumes "length (make_date_data nd) = 1"
    and "mc \<le> 0"
    and "t \<in> target_ind ` set nd"
    and "select_nest_data nd t ms = []"
  shows "count_max_consec_detects (select_nest_data nd t ms) (make_date_data nd) = Inr 0
    \<and> process_target env nd (make_date_data nd) ms md mc t nests = Inl ValueError
    \<and> process_nests env nd year site savedir ms md mc = Inl ValueError"
proof -
  let ?dd = "make_date_data nd"
  have n: "count_max_consec_detects (select_nest_data nd t ms) ?dd = Inr 0"
    using count_max_Nil[OF assms(1)] assms(4) by simp
  have kept: "md \<le> int (length (select_nest_data nd t ms)) \<or> mc \<le> 0" using assms(2) by simp
  have pt: "\<And>acc. process_target env nd ?dd ms md mc t acc = Inl ValueError"
    using process_target_kept[OF n kept, where env = env] assms(4) aggregate_nest_Nil by simp
  have "target_loop env nd ?dd ms md mc (unique (map target_ind nd)) [] = Inl ValueError"
  proof (rule target_loop_error)
    show "\<forall>t\<in>set (unique (map target_ind nd)). \<forall>acc.
            (\<exists>r. process_target env nd ?dd ms md mc t acc = Inr r)
            \<or> process_target env nd ?dd ms md mc t acc = Inl ValueError"
      using process_target_total[OF assms(1)] by blast
    show "\<exists>t\<in>set (unique (map target_ind nd)). \<forall>acc.
            process_target env nd ?dd ms md mc t acc = Inl ValueError"
      using pt assms(3) by (auto simp: set_unique)
  qed
  then have "process_nests env nd year site savedir ms md mc = Inl ValueError"
    by (simp add: process_nests_def Let_def)
  then show ?thesis using n pt by simp
qed

theorem empty_group_raises_witness:
  "length (make_date_data table_low) = 1
   \<and> 1 \<in> target_ind ` set table_low
   \<and> select_nest_data table_low 1 (3 / 10) = []
   \<and> count_max_consec_detects (select_nest_data table_low 1 (3 / 10)) (make_date_data table_low) = Inr 0
   \<and> process_nests exact_env table_low ''2020'' ''Joule'' ''out'' (3 / 10) 3 0 = Inl ValueError"
proof -
  have a: "length (make_date_data table_low) = 1" by code_simp
  have b: "(0::int) \<le> 0" by simp
  have c: "1 \<in> target_ind ` set table_low" by code_simp
  have d: "select_nest_data table_low 1 (3 / 10) = []" by code_simp
  show ?thesis
    using empty_group_raises[OF a b c d, of exact_env 3 "[]" "''2020''" "''Joule''" "''out''"] a c d
    by simp
qed

end
